theory Spec2Isabelle
  imports Complex_Main "HOL-Library.Multiset"
begin

section \<open>AnalyzeProtein.c: a shallow embedding\<close>

text \<open>
  The program reads PDB files, collects the coordinates of their ATOM records in a
  fixed array and prints three statistics per file. The embedding follows the C text
  function by function and keeps its names.

  Numbers: a C \<open>float\<close> is modelled by the real number it denotes, and \<open>+\<close>, \<open>-\<close>,
  \<open>*\<close>, \<open>/\<close> and \<open>sqrt\<close> are the exact operations on the reals. Rounding, overflow,
  infinities and NaN are outside this model; every statement below about a computed
  value is a statement about exact arithmetic. An \<open>int\<close> is a HOL \<open>int\<close> (the counter
  never leaves the range of a 32-bit int before the array bound is reached).

  Memory: a char array is the list of its bytes, a C string is the bytes before its
  first NUL. The arrays \<open>fileAtoms\<close> and \<open>gravityCenter\<close> are functions from indices to
  values; a write to \<open>fileAtoms\<close> outside \<open>0 .. MAX_ATOMS - 1\<close>, which C leaves
  undefined, is an explicit outcome of the model.
\<close>

type_synonym c_float = real

subsection \<open>The \<open>#define\<close> block\<close>

definition MAX_ATOMS :: int where "MAX_ATOMS = 20000"

definition MAX_LINE :: nat where "MAX_LINE = 80"

definition END_OF_STRING :: char where "END_OF_STRING = CHR 0x00"

definition LINE_STARTER :: string where "LINE_STARTER = ''ATOM  ''"

definition LINE_STARTER_LEN :: nat where "LINE_STARTER_LEN = 6"

definition COORDINATE_LEN :: nat where "COORDINATE_LEN = 8"

definition MIN_LINE_LEN :: nat where "MIN_LINE_LEN = 60"

definition MIN_ARGS :: nat where "MIN_ARGS = 2"

text \<open>\<open>EXIT_FAILURE\<close> of \<open>stdlib.h\<close>.\<close>

definition EXIT_FAILURE :: int where "EXIT_FAILURE = 1"

subsection \<open>What the program prints and how it ends\<close>

text \<open>
  One constructor per \<open>printf\<close> of the source, carrying the values printed (the
  \<open>%.3f\<close> rendering is not modelled). \<open>ConversionErr\<close> goes to the standard error
  stream, the others to the standard output.
\<close>

datatype printed =
    Usage
  | ErrorOpening string
  | TooShort nat
  | ConversionErr string
  | ZeroAtoms string
  | AtomsRead string int
  | Cg c_float c_float c_float
  | Rg c_float
  | Dmax c_float

text \<open>
  A run ends by returning from \<open>main\<close> or by \<open>exit\<close>, with a status; or it writes
  past the end of \<open>fileAtoms\<close>, after which C promises nothing.
\<close>

datatype outcome = Exit int | Undefined

text \<open>
  Leaving a function early: \<open>exit\<close> after a message, or the out-of-bounds write at
  the given index.
\<close>

datatype abort = Exited printed int | OutOfBounds int

subsection \<open>The C library, as far as the program uses it\<close>

definition c_str :: "string \<Rightarrow> string" where
  "c_str buf = takeWhile (\<lambda>c. c \<noteq> END_OF_STRING) buf"

definition strlen :: "string \<Rightarrow> nat" where
  "strlen buf = length (c_str buf)"

text \<open>
  \<open>strncmp\<close>: compares at most \<open>n\<close> bytes and stops after a NUL. The end of a list
  reads as the terminating NUL of a string literal.
\<close>

fun strncmp :: "string \<Rightarrow> string \<Rightarrow> nat \<Rightarrow> int" where
  "strncmp s1 s2 0 = 0"
| "strncmp [] [] (Suc n) = 0"
| "strncmp [] (c2 # s2) (Suc n) = - int (of_char c2)"
| "strncmp (c1 # s1) [] (Suc n) = int (of_char c1)"
| "strncmp (c1 # s1) (c2 # s2) (Suc n) =
     (if c1 \<noteq> c2 then int (of_char c1) - int (of_char c2)
      else if c1 = END_OF_STRING then 0
      else strncmp s1 s2 n)"

text \<open>
  A stream opened for reading: the bytes not yet read, whether the device reports a
  read error (rather than end of file) once they are used up, and the end-of-file
  indicator that \<open>feof\<close> tests.
\<close>

record c_file =
  pending :: string
  fails :: bool
  eof :: bool

text \<open>The bytes one \<open>fgets\<close> call consumes: at most \<open>k\<close>, stopping after a newline.\<close>

fun read_line :: "nat \<Rightarrow> string \<Rightarrow> string" where
  "read_line 0 bs = []"
| "read_line (Suc k) [] = []"
| "read_line (Suc k) (b # bs) = (if b = CHR 0x0A then [b] else b # read_line k bs)"

text \<open>
  \<open>fgets(s, n, fp)\<close>: the new contents of \<open>s\<close> (or \<open>None\<close> for a null pointer, with
  \<open>s\<close> unchanged) and the stream afterwards. The bytes read are followed by a NUL;
  the rest of \<open>s\<close> keeps what it held.
\<close>

definition fgets :: "string \<Rightarrow> nat \<Rightarrow> c_file \<Rightarrow> string option \<times> c_file" where
  "fgets s n fp =
     (let got = read_line (n - 1) (pending fp);
          fp' = fp\<lparr>pending := drop (length got) (pending fp)\<rparr>;
          ran_out = (length got < n - 1 \<and> (got = [] \<or> last got \<noteq> CHR 0x0A))
      in if ran_out \<and> fails fp then (None, fp')
         else if got = [] then (None, fp'\<lparr>eof := True\<rparr>)
         else (Some (got @ [END_OF_STRING] @ drop (length got + 1) s),
               fp'\<lparr>eof := (eof fp \<or> ran_out)\<rparr>))"

text \<open>
  \<open>strtof\<close> is a parameter of the model: for the string it is given, the value it
  returns, how many bytes it consumed (\<open>end - input\<close>) and the value of \<open>errno\<close>
  after the call (\<open>errno\<close> is 0 before it).
\<close>

type_synonym strtof_fn = "string \<Rightarrow> c_float \<times> nat \<times> int"

subsection \<open>\<open>startsWith\<close>, \<open>getFloat\<close>, \<open>parseLine\<close>\<close>

definition startsWith :: "string \<Rightarrow> bool" where
  "startsWith line = (strncmp line LINE_STARTER LINE_STARTER_LEN = 0)"

definition getFloat :: "strtof_fn \<Rightarrow> string \<Rightarrow> abort + c_float" where
  "getFloat strtof input =
     (case strtof (c_str input) of (result, consumed, errno) \<Rightarrow>
        if result = 0 \<and> (errno \<noteq> 0 \<or> consumed = 0)
        then Inl (Exited (ConversionErr (c_str input)) EXIT_FAILURE)
        else Inr result)"

type_synonym atoms = "int \<Rightarrow> int \<Rightarrow> c_float"

definition parseLine :: "strtof_fn \<Rightarrow> string \<Rightarrow> int \<Rightarrow> atoms \<Rightarrow> abort + atoms" where
  "parseLine strtof fileLine atomCounter fileAtoms =
     (let cgString = take COORDINATE_LEN (drop 30 fileLine) @ [END_OF_STRING];
          radString = take COORDINATE_LEN (drop 38 fileLine) @ [END_OF_STRING];
          disString = take COORDINATE_LEN (drop 46 fileLine) @ [END_OF_STRING]
      in case getFloat strtof cgString of
           Inl e \<Rightarrow> Inl e
         | Inr x \<Rightarrow>
             if atomCounter < 0 \<or> MAX_ATOMS \<le> atomCounter then Inl (OutOfBounds atomCounter)
             else
               (case getFloat strtof radString of
                  Inl e \<Rightarrow> Inl e
                | Inr y \<Rightarrow>
                    (case getFloat strtof disString of
                       Inl e \<Rightarrow> Inl e
                     | Inr z \<Rightarrow>
                         Inr (fileAtoms(atomCounter :=
                                ((fileAtoms atomCounter)(0 := x, 1 := y, 2 := z)))))))"

subsection \<open>The three statistics\<close>

text \<open>The \<open>for\<close> loop of \<open>calCenterOfGravity\<close>, from index \<open>i\<close> with the three sums so far.\<close>

function calCenterOfGravity_for ::
  "int \<Rightarrow> int \<Rightarrow> atoms \<Rightarrow> c_float \<times> c_float \<times> c_float \<Rightarrow> c_float \<times> c_float \<times> c_float" where
  "calCenterOfGravity_for i atomCounter fileAtoms (xCorSum, yCorSum, zCorSum) =
     (if i < atomCounter
      then calCenterOfGravity_for (i + 1) atomCounter fileAtoms
             (xCorSum + fileAtoms i 0, yCorSum + fileAtoms i 1, zCorSum + fileAtoms i 2)
      else (xCorSum, yCorSum, zCorSum))"
  by pat_completeness auto
termination
  by (relation "measure (\<lambda>(i, atomCounter, _, _). nat (atomCounter - i))") auto

declare calCenterOfGravity_for.simps [simp del]

text \<open>Returns the line printed and the new contents of \<open>gravityCenter\<close>.\<close>

definition calCenterOfGravity ::
  "int \<Rightarrow> atoms \<Rightarrow> (int \<Rightarrow> c_float) \<Rightarrow> printed \<times> (int \<Rightarrow> c_float)" where
  "calCenterOfGravity atomCounter fileAtoms gravityCenter =
     (case calCenterOfGravity_for 0 atomCounter fileAtoms (0, 0, 0) of
        (xCorSum, yCorSum, zCorSum) \<Rightarrow>
          (Cg (xCorSum / of_int atomCounter) (yCorSum / of_int atomCounter)
              (zCorSum / of_int atomCounter),
           gravityCenter(0 := xCorSum / of_int atomCounter,
                         1 := yCorSum / of_int atomCounter,
                         2 := zCorSum / of_int atomCounter)))"

definition calDistance ::
  "c_float \<Rightarrow> c_float \<Rightarrow> c_float \<Rightarrow> c_float \<Rightarrow> c_float \<Rightarrow> c_float \<Rightarrow> c_float" where
  "calDistance xCor1 yCor1 zCor1 xCor2 yCor2 zCor2 =
     (xCor1 - xCor2) * (xCor1 - xCor2) + ((yCor1 - yCor2) * (yCor1 - yCor2))
       + ((zCor1 - zCor2) * (zCor1 - zCor2))"

function calRotationRadious_for ::
  "int \<Rightarrow> int \<Rightarrow> atoms \<Rightarrow> c_float \<Rightarrow> c_float \<Rightarrow> c_float \<Rightarrow> c_float \<Rightarrow> c_float" where
  "calRotationRadious_for i atomCounter fileAtoms xCor1 yCor1 zCor1 rotationSum =
     (if i < atomCounter
      then calRotationRadious_for (i + 1) atomCounter fileAtoms xCor1 yCor1 zCor1
             (rotationSum
                + calDistance xCor1 yCor1 zCor1 (fileAtoms i 0) (fileAtoms i 1) (fileAtoms i 2))
      else rotationSum)"
  by pat_completeness auto
termination
  by (relation "measure (\<lambda>(i, atomCounter, _). nat (atomCounter - i))") auto

declare calRotationRadious_for.simps [simp del]

definition calRotationRadious :: "int \<Rightarrow> atoms \<Rightarrow> (int \<Rightarrow> c_float) \<Rightarrow> printed" where
  "calRotationRadious atomCounter fileAtoms gravityCenter =
     Rg (sqrt (calRotationRadious_for 0 atomCounter fileAtoms
                 (gravityCenter 0) (gravityCenter 1) (gravityCenter 2) 0
               / of_int atomCounter))"

text \<open>The inner loop of \<open>calMaxDistance\<close>, over \<open>j\<close>.\<close>

function calMaxDistance_for_j ::
  "int \<Rightarrow> int \<Rightarrow> atoms \<Rightarrow> c_float \<Rightarrow> c_float \<Rightarrow> c_float \<Rightarrow> c_float \<Rightarrow> c_float" where
  "calMaxDistance_for_j j atomCounter fileAtoms xCor1 yCor1 zCor1 maxDistance =
     (if j < atomCounter
      then calMaxDistance_for_j (j + 1) atomCounter fileAtoms xCor1 yCor1 zCor1
             (let tempDistance =
                    sqrt (calDistance xCor1 yCor1 zCor1
                            (fileAtoms j 0) (fileAtoms j 1) (fileAtoms j 2))
              in if maxDistance < tempDistance then tempDistance else maxDistance)
      else maxDistance)"
  by pat_completeness auto
termination
  by (relation "measure (\<lambda>(j, atomCounter, _). nat (atomCounter - j))") auto

declare calMaxDistance_for_j.simps [simp del]

text \<open>The outer loop, over \<open>i\<close>.\<close>

function calMaxDistance_for_i :: "int \<Rightarrow> int \<Rightarrow> atoms \<Rightarrow> c_float \<Rightarrow> c_float" where
  "calMaxDistance_for_i i atomCounter fileAtoms maxDistance =
     (if i < atomCounter - 1
      then calMaxDistance_for_i (i + 1) atomCounter fileAtoms
             (calMaxDistance_for_j 1 atomCounter fileAtoms
                (fileAtoms i 0) (fileAtoms i 1) (fileAtoms i 2) maxDistance)
      else maxDistance)"
  by pat_completeness auto
termination
  by (relation "measure (\<lambda>(i, atomCounter, _). nat (atomCounter - i))") auto

declare calMaxDistance_for_i.simps [simp del]

definition calMaxDistance :: "int \<Rightarrow> atoms \<Rightarrow> printed" where
  "calMaxDistance atomCounter fileAtoms = Dmax (calMaxDistance_for_i 0 atomCounter fileAtoms 0)"

subsection \<open>\<open>main\<close>\<close>

lemma read_line_Nil: "read_line k [] = []"
  by (cases k) simp_all

lemma length_read_line: "length (read_line k bs) \<le> length bs"
  by (induction k bs rule: read_line.induct) auto

lemma fgets_Some_shorter:
  assumes "fst (fgets s n fp) \<noteq> None"
  shows "length (pending (snd (fgets s n fp))) < length (pending fp)"
proof -
  let ?got = "read_line (n - 1) (pending fp)"
  from assms have ne: "?got \<noteq> []"
    by (auto simp: fgets_def Let_def split: if_splits)
  then have "pending fp \<noteq> []"
    by (auto simp: read_line_Nil)
  moreover have "pending (snd (fgets s n fp)) = drop (length ?got) (pending fp)"
    by (simp add: fgets_def Let_def)
  ultimately show ?thesis
    using ne by simp
qed

text \<open>The \<open>while (fgets ...)\<close> loop of one file.\<close>

function main_while ::
  "strtof_fn \<Rightarrow> c_file \<Rightarrow> string \<Rightarrow> atoms \<Rightarrow> int \<Rightarrow> abort + (c_file \<times> string \<times> atoms \<times> int)" where
  "main_while strtof fp fileLine fileAtoms atomCounter =
     (let r = fgets fileLine MAX_LINE fp in
      if fst r = None then Inr (snd r, fileLine, fileAtoms, atomCounter)
      else
        if startsWith (the (fst r)) then
          if strlen (the (fst r)) > MIN_LINE_LEN then
            (case parseLine strtof (the (fst r)) atomCounter fileAtoms of
               Inl e \<Rightarrow> Inl e
             | Inr fileAtoms' \<Rightarrow>
                 main_while strtof (snd r) (the (fst r)) fileAtoms' (atomCounter + 1))
          else Inl (Exited (TooShort (strlen (the (fst r)))) EXIT_FAILURE)
        else main_while strtof (snd r) (the (fst r)) fileAtoms atomCounter)"
  by pat_completeness auto
termination
  by (relation "measure (\<lambda>(_, fp, _). length (pending fp))")
     (auto simp: fgets_Some_shorter)

declare main_while.simps [simp del]

text \<open>
  The state that outlives one iteration of the \<open>for\<close> loop over the arguments: the
  three arrays declared at the top of \<open>main\<close>.
\<close>

record main_vars =
  fileLine :: string
  fileAtoms :: atoms
  gravityCenter :: "int \<Rightarrow> c_float"

text \<open>
  The file system is a parameter: for a name, the bytes of the file and whether reading
  it ends in a device error, or \<open>None\<close> when the file cannot be opened. \<open>fopen\<close> gives
  a fresh stream.
\<close>

type_synonym file_system = "string \<Rightarrow> (string \<times> bool) option"

definition fopen :: "file_system \<Rightarrow> string \<Rightarrow> c_file option" where
  "fopen fs name =
     (case fs name of
        None \<Rightarrow> None
      | Some (bytes, bad) \<Rightarrow> Some \<lparr>pending = bytes, fails = bad, eof = False\<rparr>)"

text \<open>The \<open>for\<close> loop over \<open>argv[1 .. argc - 1]\<close>, on the arguments still to do.\<close>

fun main_for ::
  "strtof_fn \<Rightarrow> file_system \<Rightarrow> string list \<Rightarrow> main_vars \<Rightarrow> printed list \<times> outcome" where
  "main_for strtof fs [] vars = ([], Exit 0)"
| "main_for strtof fs (arg # args) vars =
     (case fopen fs arg of
        None \<Rightarrow> ([ErrorOpening arg], Exit 1)
      | Some fp \<Rightarrow>
          (case main_while strtof fp (fileLine vars) (fileAtoms vars) 0 of
             Inl (Exited msg status) \<Rightarrow> ([msg], Exit status)
           | Inl (OutOfBounds k) \<Rightarrow> ([], Undefined)
           | Inr (fp', fileLine', fileAtoms', atomCounter) \<Rightarrow>
               if \<not> eof fp' \<or> atomCounter = 0 then ([ZeroAtoms arg], Exit 1)
               else
                 (case calCenterOfGravity atomCounter fileAtoms' (gravityCenter vars) of
                    (cg, gravityCenter') \<Rightarrow>
                      (case main_for strtof fs args
                              \<lparr>fileLine = fileLine', fileAtoms = fileAtoms',
                               gravityCenter = gravityCenter'\<rparr> of
                         (later, result) \<Rightarrow>
                           ([AtomsRead arg atomCounter, cg,
                             calRotationRadious atomCounter fileAtoms' gravityCenter',
                             calMaxDistance atomCounter fileAtoms'] @ later,
                            result)))))"

text \<open>
  \<open>main\<close>: \<open>argv\<close> with the program's name first; \<open>gravityCenter0\<close> is whatever the
  uninitialised array \<open>gravityCenter\<close> holds at the start.
\<close>

definition main ::
  "strtof_fn \<Rightarrow> file_system \<Rightarrow> (int \<Rightarrow> c_float) \<Rightarrow> string list
     \<Rightarrow> printed list \<times> outcome" where
  "main strtof fs gravityCenter0 argv =
     (if length argv < MIN_ARGS then ([Usage], Exit 1)
      else main_for strtof fs (tl argv)
             \<lparr>fileLine = replicate MAX_LINE END_OF_STRING, fileAtoms = (\<lambda>_ _. 0),
              gravityCenter = gravityCenter0\<rparr>)"

section \<open>Notions of the specification\<close>

text \<open>
  The Atom Store of a file is the first \<open>atomCounter\<close> rows of \<open>fileAtoms\<close>; a row is
  a point, with its coordinates in columns 0, 1 and 2.
\<close>

text \<open>The Euclidean distance of two points, as the specification's \<open>d\<close>.\<close>

definition euclidean_distance :: "(int \<Rightarrow> c_float) \<Rightarrow> (int \<Rightarrow> c_float) \<Rightarrow> real" where
  "euclidean_distance p q = sqrt ((p 0 - q 0)\<^sup>2 + (p 1 - q 1)\<^sup>2 + (p 2 - q 2)\<^sup>2)"

text \<open>The arithmetic mean of each coordinate over the first \<open>n\<close> rows.\<close>

definition centroid :: "int \<Rightarrow> atoms \<Rightarrow> int \<Rightarrow> real" where
  "centroid n a k = (\<Sum>i = 0..<n. a i k) / of_int n"


section \<open>Notions of the proofs\<close>

text \<open>
  The \<open>while\<close> loop is studied through the list of lines that \<open>fgets\<close> delivers and
  through the atom records among them; the reducers through the points in the store.
\<close>

text \<open>What \<open>calMaxDistance\<close> computes for the pair of rows \<open>i\<close> and \<open>j\<close>.\<close>

definition pair_distance :: "atoms \<Rightarrow> int \<Rightarrow> int \<Rightarrow> c_float" where
  "pair_distance a i j =
     sqrt (calDistance (a i 0) (a i 1) (a i 2) (a j 0) (a j 1) (a j 2))"

text \<open>The field of one coordinate in the text of a line.\<close>

definition coordinate_field :: "string \<Rightarrow> int \<Rightarrow> string" where
  "coordinate_field text k = take COORDINATE_LEN (drop (30 + 8 * nat k) text)"

text \<open>
  The lines of a stream: the C strings that successive \<open>fgets\<close> calls with a buffer of
  \<open>MAX_LINE\<close> bytes deliver, up to the first null pointer.
\<close>

function lines_read :: "c_file \<Rightarrow> string list" where
  "lines_read fp =
     (let r = fgets [] MAX_LINE fp in
      if fst r = None then [] else c_str (the (fst r)) # lines_read (snd r))"
  by pat_completeness auto
termination
  by (relation "measure (\<lambda>fp. length (pending fp))") (auto simp: fgets_Some_shorter)

declare lines_read.simps [simp del]

text \<open>The body of the \<open>while\<close> loop, run over a list of lines.\<close>

fun while_lines :: "strtof_fn \<Rightarrow> string list \<Rightarrow> atoms \<Rightarrow> int \<Rightarrow> abort + atoms \<times> int" where
  "while_lines strtof [] a n = Inr (a, n)"
| "while_lines strtof (l # ls) a n =
     (if startsWith l then
        if MIN_LINE_LEN < strlen l then
          (case parseLine strtof l n a of
             Inl e \<Rightarrow> Inl e
           | Inr a' \<Rightarrow> while_lines strtof ls a' (n + 1))
        else Inl (Exited (TooShort (strlen l)) EXIT_FAILURE)
      else while_lines strtof ls a n)"

text \<open>What the \<open>while\<close> loop leaves for the statistics: the store and the count.\<close>

definition store_and_count ::
  "abort + c_file \<times> string \<times> atoms \<times> int \<Rightarrow> abort + atoms \<times> int" where
  "store_and_count r = (case r of Inl e \<Rightarrow> Inl e | Inr (fp', l', a', n') \<Rightarrow> Inr (a', n'))"

text \<open>The atom records among the lines of a file.\<close>

definition atom_records :: "string list \<Rightarrow> string list" where
  "atom_records ls = filter startsWith ls"

text \<open>The value \<open>getFloat\<close> returns for coordinate \<open>k\<close> of a line.\<close>

definition coordinate :: "strtof_fn \<Rightarrow> string \<Rightarrow> int \<Rightarrow> c_float" where
  "coordinate strtof l k = fst (strtof (c_str (coordinate_field (c_str l) k)))"

text \<open>\<open>getFloat\<close> returns a value.\<close>

definition converts :: "strtof_fn \<Rightarrow> string \<Rightarrow> bool" where
  "converts strtof input = (case getFloat strtof input of Inl e \<Rightarrow> False | Inr v \<Rightarrow> True)"

text \<open>An atom record that the loop takes: long enough, with three fields that convert.\<close>

definition well_formed :: "strtof_fn \<Rightarrow> string \<Rightarrow> bool" where
  "well_formed strtof l =
     (MIN_LINE_LEN < strlen l
      \<and> converts strtof (coordinate_field (c_str l) 0)
      \<and> converts strtof (coordinate_field (c_str l) 1)
      \<and> converts strtof (coordinate_field (c_str l) 2))"

text \<open>Two stores hold the same atoms in their first \<open>n\<close> rows.\<close>

definition same_atoms :: "int \<Rightarrow> atoms \<Rightarrow> atoms \<Rightarrow> bool" where
  "same_atoms n a b = (\<forall>i k. 0 \<le> i \<and> i < n \<and> k \<in> {0, 1, 2} \<longrightarrow> a i k = b i k)"

definition file_lines :: "string \<Rightarrow> bool \<Rightarrow> string list" where
  "file_lines bytes bad = lines_read \<lparr>pending = bytes, fails = bad, eof = False\<rparr>"





section \<open>Inputs for the examples\<close>

subsection \<open>An instance of \<open>strtof\<close> for the examples\<close>

text \<open>
  The examples below need some \<open>strtof\<close>. This one reads what \<open>strtof\<close> reads in a
  plain decimal numeral: white space, an optional sign, digits with an optional
  fraction; it knows no exponent, no hexadecimal, no infinity or NaN and reports no
  range error. No general statement depends on it.
\<close>

definition isspace :: "char \<Rightarrow> bool" where
  "isspace c = (c \<in> {CHR '' '', CHR 0x09, CHR 0x0A, CHR 0x0B, CHR 0x0C, CHR 0x0D})"

definition isdigit :: "char \<Rightarrow> bool" where
  "isdigit c = (48 \<le> (of_char c :: nat) \<and> (of_char c :: nat) \<le> 57)"

definition decimal_value :: "string \<Rightarrow> nat" where
  "decimal_value ds = foldl (\<lambda>v c. 10 * v + (of_char c - 48)) 0 ds"

definition strtof_decimal :: strtof_fn where
  "strtof_decimal s =
     (let t = dropWhile isspace s;
          signed = (t \<noteq> [] \<and> (hd t = CHR ''-'' \<or> hd t = CHR ''+''));
          u = (if signed then tl t else t);
          ip = takeWhile isdigit u;
          v = drop (length ip) u;
          dotted = (v \<noteq> [] \<and> hd v = CHR ''.'');
          fp = (if dotted then takeWhile isdigit (tl v) else []);
          w = (if dotted then drop (length fp) (tl v) else v);
          magnitude = real (decimal_value ip) + real (decimal_value fp) / 10 ^ length fp
      in if ip = [] \<and> fp = [] then (0, 0, 0)
         else (if t \<noteq> [] \<and> hd t = CHR ''-'' then - magnitude else magnitude,
               length s - length w, 0))"

text \<open>
  What \<open>strtof\<close> reports for a numeral too small for a \<open>float\<close>, such as \<open>1e-99\<close>:
  the value 0, the numeral consumed, and \<open>errno\<close> set to \<open>ERANGE\<close> (34).
\<close>

definition strtof_range_error :: strtof_fn where
  "strtof_range_error s = (0, length s, 34)"

subsection \<open>Files\<close>

definition origin_line :: string where
  "origin_line = ''ATOM      1  CA  GLY A   1       0.000   0.000   0.000  1.00'' @ [CHR 0x0A]"

definition x2_line :: string where
  "x2_line = ''ATOM      2  CA  GLY A   1       2.000   0.000   0.000  1.00'' @ [CHR 0x0A]"

definition remark_line :: string where
  "remark_line = ''REMARK two atoms'' @ [CHR 0x0A]"

text \<open>An atom record of exactly 60 characters, as the last line of a file without a newline.\<close>

definition sixty_line :: string where
  "sixty_line = ''ATOM      1  CA  GLY A   1       0.000   0.000   0.000  1.00''"

text \<open>An atom record whose second coordinate is not a number.\<close>

definition bad_y_line :: string where
  "bad_y_line = ''ATOM      3  CA  GLY A   1       1.000   n/a     0.000  1.00'' @ [CHR 0x0A]"

definition two_atoms_fs :: file_system where
  "two_atoms_fs name =
     (if name = ''two.pdb'' then Some (origin_line @ remark_line @ x2_line, False)
      else if name = ''one.pdb'' then Some (x2_line, False)
      else None)"

definition sixty_fs :: file_system where
  "sixty_fs name = (if name = ''sixty.pdb'' then Some (sixty_line, False) else None)"

definition bad_y_fs :: file_system where
  "bad_y_fs name =
     (if name = ''bad.pdb'' then Some (origin_line @ bad_y_line, False) else None)"


text \<open>A file of 20001 atom records.\<close>

definition big_fs :: file_system where
  "big_fs name =
     (if name = ''big.pdb'' then Some (concat (replicate 20001 x2_line), False) else None)"

definition fresh_vars :: main_vars where
  "fresh_vars = \<lparr>fileLine = replicate MAX_LINE END_OF_STRING, fileAtoms = (\<lambda>_ _. 0),
                 gravityCenter = (\<lambda>_. 0)\<rparr>"


section \<open>The loops in closed form\<close>

lemma int_range_split: "i < n \<Longrightarrow> {i..<n} = insert i {i + 1..<n}" for i n :: int
  by auto

lemma sum_int_range_split:
  "i < n \<Longrightarrow> (\<Sum>k = i..<n. f k) = f i + (\<Sum>k = i + 1..<n. f k)" for i n :: int and f :: "int \<Rightarrow> real"
  by (simp add: int_range_split)

lemma calCenterOfGravity_for_sum:
  "calCenterOfGravity_for i n a (xs, ys, zs) =
     (xs + (\<Sum>k = i..<n. a k 0), ys + (\<Sum>k = i..<n. a k 1), zs + (\<Sum>k = i..<n. a k 2))"
proof (induction i n a "(xs, ys, zs)" arbitrary: xs ys zs rule: calCenterOfGravity_for.induct)
  case (1 i n a xs ys zs)
  show ?case
  proof (cases "i < n")
    case True
    then show ?thesis
      using "1.hyps" [OF True]
      by (subst calCenterOfGravity_for.simps) (simp add: sum_int_range_split)
  next
    case False
    then show ?thesis
      by (subst calCenterOfGravity_for.simps) simp
  qed
qed

lemma calRotationRadious_for_sum:
  "calRotationRadious_for i n a x y z s =
     s + (\<Sum>k = i..<n. calDistance x y z (a k 0) (a k 1) (a k 2))"
proof (induction i n a x y z s rule: calRotationRadious_for.induct)
  case (1 i n a x y z s)
  show ?case
  proof (cases "i < n")
    case True
    then show ?thesis
      using "1.IH" [OF True]
      by (subst calRotationRadious_for.simps) (simp add: sum_int_range_split)
  next
    case False
    then show ?thesis
      by (subst calRotationRadious_for.simps) simp
  qed
qed

lemma calMaxDistance_for_j_Max:
  "calMaxDistance_for_j j n a x y z m =
     Max (insert m ((\<lambda>k. sqrt (calDistance x y z (a k 0) (a k 1) (a k 2))) ` {j..<n}))"
proof (induction j n a x y z m rule: calMaxDistance_for_j.induct)
  case (1 j n a x y z m)
  let ?d = "\<lambda>k. sqrt (calDistance x y z (a k 0) (a k 1) (a k 2))"
  show ?case
  proof (cases "j < n")
    case True
    have "calMaxDistance_for_j j n a x y z m =
            Max (insert (max m (?d j)) (?d ` {j + 1..<n}))"
      using "1.IH" [OF True] True
      by (subst calMaxDistance_for_j.simps) (simp add: Let_def max_def)
    also have "\<dots> = Max (insert m (?d ` {j..<n}))"
    proof (cases "{j + 1..<n} = {}")
      case True
      then show ?thesis
        using \<open>j < n\<close> by (simp add: int_range_split max.commute)
    next
      case False
      then show ?thesis
        using \<open>j < n\<close> by (simp add: int_range_split max.assoc)
    qed
    finally show ?thesis .
  next
    case False
    then show ?thesis
      by (subst calMaxDistance_for_j.simps) simp
  qed
qed

lemma Max_insert_Max:
  fixes m :: real
  assumes "finite A" "finite B"
  shows "Max (insert (Max (insert m A)) B) = Max (insert m (A \<union> B))"
proof (cases "B = {}")
  case True
  then show ?thesis by simp
next
  case False
  have "Max (insert m (A \<union> B)) = Max (insert m A \<union> B)"
    by simp
  also have "\<dots> = max (Max (insert m A)) (Max B)"
    using assms False by (intro Max_Un) auto
  also have "\<dots> = Max (insert (Max (insert m A)) B)"
    using assms False by simp
  finally show ?thesis by simp
qed

lemma calMaxDistance_for_i_Max:
  "calMaxDistance_for_i i n a m =
     Max (insert m ((\<lambda>(p, q). pair_distance a p q) ` ({i..<n - 1} \<times> {1..<n})))"
proof (induction i n a m rule: calMaxDistance_for_i.induct)
  case (1 i n a m)
  let ?D = "\<lambda>(p, q). pair_distance a p q"
  show ?case
  proof (cases "i < n - 1")
    case True
    have row: "(\<lambda>k. sqrt (calDistance (a i 0) (a i 1) (a i 2) (a k 0) (a k 1) (a k 2))) ` {1..<n}
                 = ?D ` ({i} \<times> {1..<n})"
      by (auto simp: pair_distance_def image_iff)
    have split: "{i..<n - 1} \<times> {1..<n} = {i} \<times> {1..<n} \<union> {i + 1..<n - 1} \<times> {1..<n}"
      using True by auto
    have "calMaxDistance_for_i i n a m =
            Max (insert (Max (insert m (?D ` ({i} \<times> {1..<n}))))
                   (?D ` ({i + 1..<n - 1} \<times> {1..<n})))"
      using "1.IH" [OF True] True
      by (subst calMaxDistance_for_i.simps) (simp add: calMaxDistance_for_j_Max row)
    also have "\<dots> = Max (insert m (?D ` ({i} \<times> {1..<n}) \<union> ?D ` ({i + 1..<n - 1} \<times> {1..<n})))"
      by (rule Max_insert_Max) simp_all
    also have "\<dots> = Max (insert m (?D ` ({i..<n - 1} \<times> {1..<n})))"
      by (subst split) (simp only: image_Un)
    finally show ?thesis .
  next
    case False
    then show ?thesis
      by (subst calMaxDistance_for_i.simps) simp
  qed
qed









lemma calDistance_nonneg: "0 \<le> calDistance x1 y1 z1 x2 y2 z2"
  by (simp add: calDistance_def)


lemma calCenterOfGravity_centroid:
  "calCenterOfGravity n a gc =
     (Cg (centroid n a 0) (centroid n a 1) (centroid n a 2),
      gc(0 := centroid n a 0, 1 := centroid n a 1, 2 := centroid n a 2))"
  by (simp add: calCenterOfGravity_def calCenterOfGravity_for_sum centroid_def)

lemma euclidean_distance_cong:
  "p 0 = p' 0 \<Longrightarrow> p 1 = p' 1 \<Longrightarrow> p 2 = p' 2 \<Longrightarrow>
   euclidean_distance p q = euclidean_distance p' q"
  by (simp add: euclidean_distance_def)

section \<open>C strings, \<open>fgets\<close> and the \<open>while\<close> loop\<close>

lemma of_char_pos: "c \<noteq> END_OF_STRING \<Longrightarrow> 0 < (of_char c :: nat)"
proof (rule ccontr)
  assume ne: "c \<noteq> END_OF_STRING" and "\<not> 0 < (of_char c :: nat)"
  then have "(of_char c :: nat) = of_char END_OF_STRING"
    by (simp add: END_OF_STRING_def)
  then have "c = END_OF_STRING"
    by (simp only: of_char_eq_iff)
  with ne show False by simp
qed

lemma strncmp_eq_0_iff:
  "n \<le> length s2 \<Longrightarrow> END_OF_STRING \<notin> set (take n s2) \<Longrightarrow>
   (strncmp s1 s2 n = 0) = (take n (c_str s1) = take n s2)"
proof (induction s1 s2 n rule: strncmp.induct)
  case (3 c2 s2 n)
  then show ?case using of_char_pos [of c2] by (auto simp: c_str_def)
next
  case (5 c1 s1 c2 s2 n)
  then show ?case by (auto simp: c_str_def)
qed (auto simp: c_str_def)

lemma startsWith_iff: "startsWith line = (take 6 (c_str line) = ''ATOM  '')"
  unfolding startsWith_def LINE_STARTER_def LINE_STARTER_LEN_def
  by (subst strncmp_eq_0_iff) (simp_all add: END_OF_STRING_def)

lemma c_str_idem: "c_str (c_str s) = c_str s"
  by (simp add: c_str_def)

lemma c_str_append_NUL: "c_str (s @ END_OF_STRING # t) = c_str s"
  by (induction s) (simp_all add: c_str_def)

lemma c_str_prefix: "\<exists>t. s = c_str s @ t"
  unfolding c_str_def by (metis takeWhile_dropWhile_id)

lemma c_str_no_NUL: "END_OF_STRING \<notin> set (c_str s)"
  unfolding c_str_def by (auto dest: set_takeWhileD)

lemma c_str_take_drop:
  assumes "k + m \<le> strlen s"
  shows "take m (drop k s) = take m (drop k (c_str s))"
    and "c_str (take m (drop k s) @ [END_OF_STRING]) = take m (drop k (c_str s))"
proof -
  obtain t where s: "s = c_str s @ t"
    using c_str_prefix by blast
  have "take m (drop k (c_str s @ t)) = take m (drop k (c_str s))"
    using assms by (simp add: strlen_def)
  with s show eq: "take m (drop k s) = take m (drop k (c_str s))"
    by simp
  have "END_OF_STRING \<notin> set (take m (drop k (c_str s)))"
    using c_str_no_NUL [of s] by (auto dest!: in_set_takeD in_set_dropD)
  then have "c_str (take m (drop k (c_str s))) = take m (drop k (c_str s))"
    unfolding c_str_def by (intro takeWhile_eq_all_conv [THEN iffD2]) auto
  then show "c_str (take m (drop k s) @ [END_OF_STRING]) = take m (drop k (c_str s))"
    by (simp add: eq c_str_append_NUL)
qed

lemma startsWith_c_str: "startsWith (c_str s) = startsWith s"
  by (simp add: startsWith_iff c_str_idem)

lemma strlen_c_str: "strlen (c_str s) = strlen s"
  by (simp add: strlen_def c_str_idem)

lemma getFloat_field:
  assumes "MIN_LINE_LEN < strlen line" and "k \<in> {0, 1, 2}"
  shows "getFloat strtof (take COORDINATE_LEN (drop (30 + 8 * nat k) line) @ [END_OF_STRING])
         = getFloat strtof (coordinate_field (c_str line) k)"
proof -
  have len: "30 + 8 * nat k + COORDINATE_LEN \<le> strlen line"
    using assms by (auto simp: MIN_LINE_LEN_def COORDINATE_LEN_def)
  have 1: "c_str (take COORDINATE_LEN (drop (30 + 8 * nat k) line) @ [END_OF_STRING])
           = coordinate_field (c_str line) k"
    unfolding coordinate_field_def by (rule c_str_take_drop(2) [OF len])
  have len': "30 + 8 * nat k + COORDINATE_LEN \<le> strlen (c_str line)"
    using len by (simp add: strlen_c_str)
  have "c_str (take COORDINATE_LEN (drop (30 + 8 * nat k) (c_str line)) @ [END_OF_STRING])
           = coordinate_field (c_str line) k"
    unfolding coordinate_field_def using c_str_take_drop(2) [OF len'] by (simp add: c_str_idem)
  then have 2: "c_str (coordinate_field (c_str line) k) = coordinate_field (c_str line) k"
    by (simp add: coordinate_field_def c_str_append_NUL [of _ "[]", simplified])
  show ?thesis
    unfolding getFloat_def 1 2 by (rule refl)
qed

lemma parseLine_fields:
  assumes "MIN_LINE_LEN < strlen line"
  shows "parseLine strtof line n a =
     (case getFloat strtof (coordinate_field (c_str line) 0) of
        Inl e \<Rightarrow> Inl e
      | Inr x \<Rightarrow>
          if n < 0 \<or> MAX_ATOMS \<le> n then Inl (OutOfBounds n)
          else
            (case getFloat strtof (coordinate_field (c_str line) 1) of
               Inl e \<Rightarrow> Inl e
             | Inr y \<Rightarrow>
                 (case getFloat strtof (coordinate_field (c_str line) 2) of
                    Inl e \<Rightarrow> Inl e
                  | Inr z \<Rightarrow> Inr (a(n := ((a n)(0 := x, 1 := y, 2 := z)))))))"
proof -
  have f: "getFloat strtof (take COORDINATE_LEN (drop 30 line) @ [END_OF_STRING])
             = getFloat strtof (coordinate_field (c_str line) 0)"
          "getFloat strtof (take COORDINATE_LEN (drop 38 line) @ [END_OF_STRING])
             = getFloat strtof (coordinate_field (c_str line) 1)"
          "getFloat strtof (take COORDINATE_LEN (drop 46 line) @ [END_OF_STRING])
             = getFloat strtof (coordinate_field (c_str line) 2)"
    using getFloat_field [OF assms, of 0 strtof] getFloat_field [OF assms, of 1 strtof]
      getFloat_field [OF assms, of 2 strtof]
    by simp_all
  show ?thesis
    unfolding parseLine_def Let_def f by (rule refl)
qed

lemma parseLine_c_str:
  assumes "MIN_LINE_LEN < strlen line"
  shows "parseLine strtof (c_str line) n a = parseLine strtof line n a"
proof -
  have 1: "MIN_LINE_LEN < strlen (c_str line)"
    using assms by (simp add: strlen_c_str)
  show ?thesis
    unfolding parseLine_fields [OF 1] parseLine_fields [OF assms] c_str_idem by (rule refl)
qed

lemma fgets_None_iff:
  "(fst (fgets s n fp) = None) = (fst (fgets s' n fp) = None)"
  by (simp add: fgets_def Let_def)

lemma fgets_snd: "snd (fgets s n fp) = snd (fgets s' n fp)"
  by (simp add: fgets_def Let_def)

lemma fgets_c_str:
  "fst (fgets s n fp) \<noteq> None \<Longrightarrow>
   c_str (the (fst (fgets s n fp))) = c_str (read_line (n - 1) (pending fp))"
  by (auto simp: fgets_def Let_def c_str_append_NUL split: if_splits)

lemma main_while_None:
  "fgets buf MAX_LINE fp = (None, fp') \<Longrightarrow>
   main_while strtof fp buf a n = Inr (fp', buf, a, n)"
  by (subst main_while.simps) (simp add: Let_def)

lemma main_while_Some:
  "fgets buf MAX_LINE fp = (Some l, fp') \<Longrightarrow>
   main_while strtof fp buf a n =
     (if startsWith l then
        if MIN_LINE_LEN < strlen l then
          (case parseLine strtof l n a of
             Inl e \<Rightarrow> Inl e
           | Inr a' \<Rightarrow> main_while strtof fp' l a' (n + 1))
        else Inl (Exited (TooShort (strlen l)) EXIT_FAILURE)
      else main_while strtof fp' l a n)"
  by (subst main_while.simps) (simp add: Let_def cong: sum.case_cong)

lemma lines_read_None: "fgets buf MAX_LINE fp = (None, fp') \<Longrightarrow> lines_read fp = []"
  using fgets_None_iff [of buf MAX_LINE fp "[]"]
  by (subst lines_read.simps) (simp add: Let_def)

lemma lines_read_Some:
  assumes "fgets buf MAX_LINE fp = (Some l, fp')"
  shows "lines_read fp = c_str l # lines_read fp'"
proof -
  let ?e = "fgets [] MAX_LINE fp"
  have some: "fst ?e \<noteq> None"
    using assms fgets_None_iff [of buf MAX_LINE fp "[]"] by simp
  have "c_str (the (fst ?e)) = c_str (read_line (MAX_LINE - 1) (pending fp))"
    using some by (rule fgets_c_str)
  also have "\<dots> = c_str l"
    using assms fgets_c_str [of buf MAX_LINE fp] by simp
  finally have cs: "c_str (the (fst ?e)) = c_str l" .
  have rest: "snd ?e = fp'"
    using assms fgets_snd [of "[]" MAX_LINE fp buf] by simp
  show ?thesis
    using some by (subst lines_read.simps) (simp add: Let_def cs rest)
qed

lemma main_while_lines:
  "store_and_count (main_while strtof fp buf a n)
   = while_lines strtof (lines_read fp) a n"
proof (induction strtof fp buf a n rule: main_while.induct)
  case (1 strtof fp buf a n)
  obtain got fp' where r: "fgets buf MAX_LINE fp = (got, fp')"
    by (cases "fgets buf MAX_LINE fp")
  show ?case
  proof (cases got)
    case None
    with r show ?thesis
      by (simp add: main_while_None lines_read_None store_and_count_def)
  next
    case (Some l)
    with r have r': "fgets buf MAX_LINE fp = (Some l, fp')"
      by simp
    note mw = main_while_Some [OF r'] and lines = lines_read_Some [OF r']
    have ne: "fst (fgets buf MAX_LINE fp) \<noteq> None" and
      l: "the (fst (fgets buf MAX_LINE fp)) = l" and fp': "snd (fgets buf MAX_LINE fp) = fp'"
      using r' by simp_all
    show ?thesis
    proof (cases "startsWith l")
      case no: False
      from "1.IH"(2) [OF refl ne] no
      have "store_and_count (main_while strtof fp' l a n)
              = while_lines strtof (lines_read fp') a n"
        by (simp add: l fp')
      with no show ?thesis
        by (simp add: mw lines startsWith_c_str)
    next
      case yes: True
      show ?thesis
      proof (cases "MIN_LINE_LEN < strlen l")
        case False
        with yes show ?thesis
          by (simp add: mw lines startsWith_c_str strlen_c_str store_and_count_def)
      next
        case long: True
        show ?thesis
        proof (cases "parseLine strtof l n a")
          case (Inl e)
          with yes long show ?thesis
            by (simp add: mw lines startsWith_c_str strlen_c_str parseLine_c_str
                store_and_count_def)
        next
          case (Inr a')
          from "1.IH"(1) [OF refl ne, of a'] yes long Inr
          have "store_and_count (main_while strtof fp' l a' (n + 1))
                  = while_lines strtof (lines_read fp') a' (n + 1)"
            by (simp add: l fp')
          with yes long Inr show ?thesis
            by (simp add: mw lines startsWith_c_str strlen_c_str parseLine_c_str)
        qed
      qed
    qed
  qed
qed

lemma main_while_eof:
  "main_while strtof fp buf a n = Inr (fp1, buf1, a1, n1) \<Longrightarrow>
   eof fp1 = (eof fp \<or> \<not> fails fp)"
proof (induction strtof fp buf a n rule: main_while.induct)
  case (1 strtof fp buf a n)
  obtain got fp' where r: "fgets buf MAX_LINE fp = (got, fp')"
    by (cases "fgets buf MAX_LINE fp")
  show ?case
  proof (cases got)
    case None
    with r "1.prems" have "fp1 = fp'"
      by (simp add: main_while_None)
    with r None show ?thesis
      by (auto simp: fgets_def Let_def MAX_LINE_def read_line_Nil split: if_splits)
  next
    case (Some l)
    with r have r': "fgets buf MAX_LINE fp = (Some l, fp')"
      by simp
    have ne: "fst (fgets buf MAX_LINE fp) \<noteq> None" and
      l: "the (fst (fgets buf MAX_LINE fp)) = l" and fp': "snd (fgets buf MAX_LINE fp) = fp'"
      using r' by simp_all
    have flags: "(eof fp' \<or> \<not> fails fp') = (eof fp \<or> \<not> fails fp)"
      using r' by (auto simp: fgets_def Let_def split: if_splits)
    show ?thesis
    proof (cases "startsWith l")
      case no: False
      with "1.prems" have "main_while strtof fp' l a n = Inr (fp1, buf1, a1, n1)"
        by (simp add: main_while_Some [OF r'])
      with "1.IH"(2) [OF refl ne] no flags show ?thesis
        by (simp add: l fp')
    next
      case yes: True
      with "1.prems" have long: "MIN_LINE_LEN < strlen l"
        by (simp add: main_while_Some [OF r'] split: if_splits)
      with "1.prems" yes obtain a' where
        p: "parseLine strtof l n a = Inr a'" and
        w: "main_while strtof fp' l a' (n + 1) = Inr (fp1, buf1, a1, n1)"
        by (simp add: main_while_Some [OF r'] split: sum.splits)
      with "1.IH"(1) [OF refl ne, of a'] yes long flags show ?thesis
        by (simp add: l fp')
    qed
  qed
qed

section \<open>The records of a file and the store they leave\<close>

lemma getFloat_Inr: "getFloat strtof input = Inr v \<Longrightarrow> v = fst (strtof (c_str input))"
  by (auto simp: getFloat_def split: prod.splits if_splits)

lemma converts_getFloat:
  "converts strtof input \<Longrightarrow> getFloat strtof input = Inr (fst (strtof (c_str input)))"
  by (auto simp: converts_def dest: getFloat_Inr split: sum.splits)

lemma parseLine_well_formed:
  assumes "well_formed strtof l" "0 \<le> n" "n < MAX_ATOMS"
  shows "parseLine strtof l n a =
           Inr (a(n := (a n)(0 := coordinate strtof l 0, 1 := coordinate strtof l 1,
                             2 := coordinate strtof l 2)))"
  using assms
  by (simp add: well_formed_def parseLine_fields converts_getFloat coordinate_def)

lemma parseLine_Inr_well_formed:
  assumes "MIN_LINE_LEN < strlen l" "parseLine strtof l n a = Inr a'"
  shows "well_formed strtof l \<and> 0 \<le> n \<and> n < MAX_ATOMS"
  using assms
  by (auto simp: well_formed_def parseLine_fields converts_def split: sum.splits if_splits)

lemma while_lines_filter:
  "while_lines strtof (filter startsWith ls) a n = while_lines strtof ls a n"
  by (induction ls arbitrary: a n) (auto split: sum.splits)

lemma while_lines_Inr_iff:
  "(\<exists>r. while_lines strtof ls a n = Inr r) \<longleftrightarrow>
     (\<forall>l \<in> set (atom_records ls). well_formed strtof l)
     \<and> (atom_records ls = [] \<or> 0 \<le> n \<and> n + int (length (atom_records ls)) \<le> MAX_ATOMS)"
proof (induction ls arbitrary: a n)
  case Nil
  then show ?case by (simp add: atom_records_def)
next
  case (Cons l ls)
  show ?case
  proof (cases "startsWith l")
    case False
    then show ?thesis
      using Cons.IH [of a n] by (simp add: atom_records_def)
  next
    case yes: True
    show ?thesis
    proof (cases "well_formed strtof l \<and> 0 \<le> n \<and> n < MAX_ATOMS")
      case True
      then have p: "parseLine strtof l n a =
           Inr (a(n := (a n)(0 := coordinate strtof l 0, 1 := coordinate strtof l 1,
                             2 := coordinate strtof l 2)))"
        by (simp add: parseLine_well_formed)
      from True have "MIN_LINE_LEN < strlen l"
        by (simp add: well_formed_def)
      then show ?thesis
        using yes True p Cons.IH [of _ "n + 1"]
        by (auto simp: atom_records_def)
    next
      case False
      have "\<not> (\<exists>r. while_lines strtof (l # ls) a n = Inr r)"
      proof (cases "MIN_LINE_LEN < strlen l")
        case True
        then show ?thesis
          using yes False parseLine_Inr_well_formed [OF True, of strtof n a]
          by (auto split: sum.splits)
      next
        case False
        then show ?thesis using yes by simp
      qed
      moreover have "\<not> ((\<forall>l \<in> set (atom_records (l # ls)). well_formed strtof l)
         \<and> (atom_records (l # ls) = []
             \<or> 0 \<le> n \<and> n + int (length (atom_records (l # ls))) \<le> MAX_ATOMS))"
        using yes False by (auto simp: atom_records_def)
      ultimately show ?thesis by blast
    qed
  qed
qed

lemma while_lines_Inr_all:
  "while_lines strtof ls a n = Inr (a', n') \<Longrightarrow>
   n' = n + int (length (atom_records ls))
   \<and> (\<forall>j k. j < length (atom_records ls) \<and> k \<in> {0, 1, 2} \<longrightarrow>
          a' (n + int j) k = coordinate strtof (atom_records ls ! j) k)
   \<and> (\<forall>i. i < n \<longrightarrow> a' i = a i)"
proof (induction ls arbitrary: a n)
  case Nil
  then show ?case by (simp add: atom_records_def)
next
  case (Cons l ls)
  show ?case
  proof (cases "startsWith l")
    case False
    then have w: "while_lines strtof ls a n = Inr (a', n')"
      using Cons.prems by simp
    have recs: "atom_records (l # ls) = atom_records ls"
      using False by (simp add: atom_records_def)
    show ?thesis
      unfolding recs by (rule Cons.IH [OF w])
  next
    case yes: True
    with Cons.prems have long: "MIN_LINE_LEN < strlen l"
      by (simp split: if_splits)
    with Cons.prems yes obtain a1 where
      p: "parseLine strtof l n a = Inr a1" and
      w: "while_lines strtof ls a1 (n + 1) = Inr (a', n')"
      by (auto split: sum.splits)
    from parseLine_Inr_well_formed [OF long p]
    have wf: "well_formed strtof l" "0 \<le> n" "n < MAX_ATOMS"
      by simp_all
    from p have a1: "a1 = a(n := (a n)(0 := coordinate strtof l 0, 1 := coordinate strtof l 1,
                           2 := coordinate strtof l 2))"
      by (simp add: parseLine_well_formed [OF wf])
    from Cons.IH [OF w] have
      IH1: "n' = n + 1 + int (length (atom_records ls))" and
      IH2: "\<And>j k. j < length (atom_records ls) \<Longrightarrow> k \<in> {0, 1, 2} \<Longrightarrow>
              a' (n + 1 + int j) k = coordinate strtof (atom_records ls ! j) k" and
      IH3: "\<And>i. i < n + 1 \<Longrightarrow> a' i = a1 i"
      by blast+
    have recs: "atom_records (l # ls) = l # atom_records ls"
      using yes by (simp add: atom_records_def)
    have 1: "n' = n + int (length (atom_records (l # ls)))"
      using IH1 by (simp add: recs)
    have 3: "a' i = a i" if "i < n" for i
      using IH3 [of i] that by (simp add: a1)
    have 2: "a' (n + int j) k = coordinate strtof (atom_records (l # ls) ! j) k"
      if j: "j < length (atom_records (l # ls))" and k: "k \<in> {0, 1, 2}" for j k
    proof (cases j)
      case 0
      have "a' n = a1 n"
        using IH3 [of n] by simp
      then have "a' n k = a1 n k"
        by simp
      also have "\<dots> = coordinate strtof l k"
        using k by (auto simp: a1)
      finally show ?thesis
        using 0 by (simp add: recs)
    next
      case (Suc j')
      then have "j' < length (atom_records ls)"
        using j by (simp add: recs)
      from IH2 [OF this k] show ?thesis
        using Suc by (simp add: recs add.assoc)
    qed
    show ?thesis
    proof (intro conjI allI impI)
      show "n' = n + int (length (atom_records (l # ls)))"
        by (rule 1)
      show "a' (n + int j) k = coordinate strtof (atom_records (l # ls) ! j) k"
        if "j < length (atom_records (l # ls)) \<and> k \<in> {0, 1, 2}" for j k
        using that 2 by blast
      show "a' i = a i" if "i < n" for i
        using that by (rule 3)
    qed
  qed
qed

lemma while_lines_count:
  "while_lines strtof ls a n = Inr (a', n') \<Longrightarrow> n' = n + int (length (atom_records ls))"
  using while_lines_Inr_all by blast

lemma while_lines_row:
  "while_lines strtof ls a n = Inr (a', n') \<Longrightarrow> j < length (atom_records ls) \<Longrightarrow>
   k \<in> {0, 1, 2} \<Longrightarrow> a' (n + int j) k = coordinate strtof (atom_records ls ! j) k"
  using while_lines_Inr_all [of strtof ls a n a' n'] by blast

section \<open>What a file's report depends on\<close>

lemma same_atomsD: "same_atoms n a b \<Longrightarrow> 0 \<le> i \<Longrightarrow> i < n \<Longrightarrow> k \<in> {0, 1, 2} \<Longrightarrow> a i k = b i k"
  unfolding same_atoms_def by blast

lemma centroid_cong:
  assumes "same_atoms n a b" "k \<in> {0, 1, 2}"
  shows "centroid n a k = centroid n b k"
proof -
  have "(\<Sum>i = 0..<n. a i k) = (\<Sum>i = 0..<n. b i k)"
    by (rule sum.cong) (use assms in \<open>auto dest: same_atomsD\<close>)
  then show ?thesis
    by (simp add: centroid_def)
qed

lemma calCenterOfGravity_cong:
  assumes "same_atoms n a b"
  shows "fst (calCenterOfGravity n a gc) = fst (calCenterOfGravity n b gc')"
    and "k \<in> {0, 1, 2} \<Longrightarrow> snd (calCenterOfGravity n a gc) k = snd (calCenterOfGravity n b gc') k"
  using centroid_cong [OF assms, of 0] centroid_cong [OF assms, of 1]
    centroid_cong [OF assms, of 2]
  by (auto simp: calCenterOfGravity_centroid)

lemma calRotationRadious_cong:
  assumes "same_atoms n a b" "gc 0 = gc' 0" "gc 1 = gc' 1" "gc 2 = gc' 2"
  shows "calRotationRadious n a gc = calRotationRadious n b gc'"
proof -
  have "(\<Sum>i = 0..<n. calDistance (gc 0) (gc 1) (gc 2) (a i 0) (a i 1) (a i 2))
        = (\<Sum>i = 0..<n. calDistance (gc' 0) (gc' 1) (gc' 2) (b i 0) (b i 1) (b i 2))"
  proof (rule sum.cong)
    fix i assume "i \<in> {0..<n}"
    then have "a i 0 = b i 0" "a i 1 = b i 1" "a i 2 = b i 2"
      using assms(1) by (auto dest: same_atomsD)
    then show "calDistance (gc 0) (gc 1) (gc 2) (a i 0) (a i 1) (a i 2)
        = calDistance (gc' 0) (gc' 1) (gc' 2) (b i 0) (b i 1) (b i 2)"
      using assms by simp
  qed simp
  then show ?thesis
    by (simp add: calRotationRadious_def calRotationRadious_for_sum)
qed

lemma pair_distance_cong:
  assumes "same_atoms n a b" "0 \<le> p" "p < n" "0 \<le> q" "q < n"
  shows "pair_distance a p q = pair_distance b p q"
proof -
  have "a p 0 = b p 0" "a p 1 = b p 1" "a p 2 = b p 2"
       "a q 0 = b q 0" "a q 1 = b q 1" "a q 2 = b q 2"
    using assms by (auto dest: same_atomsD)
  then show ?thesis
    by (simp add: pair_distance_def)
qed

lemma calMaxDistance_cong:
  assumes "same_atoms n a b"
  shows "calMaxDistance n a = calMaxDistance n b"
proof -
  have "(\<lambda>(p, q). pair_distance a p q) ` ({0..<n - 1} \<times> {1..<n})
        = (\<lambda>(p, q). pair_distance b p q) ` ({0..<n - 1} \<times> {1..<n})"
    by (rule image_cong) (use assms in \<open>auto intro: pair_distance_cong\<close>)
  then show ?thesis
    by (simp add: calMaxDistance_def calMaxDistance_for_i_Max)
qed

lemma parseLine_Inl_store:
  "parseLine strtof l n a = Inl e \<Longrightarrow> parseLine strtof l n b = Inl e"
  by (auto simp: parseLine_def Let_def split: sum.splits if_splits)

lemma parseLine_Inr_store:
  "parseLine strtof l n a = Inr a' \<Longrightarrow> \<exists>b'. parseLine strtof l n b = Inr b'"
  by (auto simp: parseLine_def Let_def split: sum.splits if_splits)

lemma while_lines_Inl_store:
  "while_lines strtof ls a n = Inl e \<Longrightarrow> while_lines strtof ls b n = Inl e"
proof (induction ls arbitrary: a b n)
  case Nil
  then show ?case by simp
next
  case (Cons l ls)
  show ?case
  proof (cases "startsWith l \<and> MIN_LINE_LEN < strlen l")
    case False
    then show ?thesis
      using Cons.prems Cons.IH by (auto split: if_splits)
  next
    case True
    show ?thesis
    proof (cases "parseLine strtof l n a")
      case (Inl e')
      then show ?thesis
        using True Cons.prems parseLine_Inl_store [OF Inl, of b] by simp
    next
      case (Inr a')
      then obtain b' where b': "parseLine strtof l n b = Inr b'"
        using parseLine_Inr_store by blast
      from Inr True Cons.prems have "while_lines strtof ls a' (n + 1) = Inl e"
        by simp
      from Cons.IH [OF this, of b'] show ?thesis
        using True b' by simp
    qed
  qed
qed

lemma while_lines_same_atoms:
  assumes "while_lines strtof ls a 0 = Inr (a', n)"
  shows "\<exists>b'. while_lines strtof ls b 0 = Inr (b', n) \<and> same_atoms n a' b'"
proof -
  have "\<exists>r. while_lines strtof ls b 0 = Inr r"
    using assms while_lines_Inr_iff [of strtof ls a 0] while_lines_Inr_iff [of strtof ls b 0]
    by blast
  then obtain b' m where b: "while_lines strtof ls b 0 = Inr (b', m)"
    by auto
  have n: "n = int (length (atom_records ls))" and m: "m = int (length (atom_records ls))"
    using while_lines_count [OF assms] while_lines_count [OF b] by simp_all
  have "a' i k = b' i k" if "0 \<le> i" "i < n" "k \<in> {0, 1, 2}" for i k
  proof -
    from that n have j: "nat i < length (atom_records ls)"
      by simp
    from while_lines_row [OF assms j that(3)] while_lines_row [OF b j that(3)] that(1)
    show ?thesis by simp
  qed
  then have "same_atoms n a' b'"
    unfolding same_atoms_def by blast
  with b n m show ?thesis
    by simp
qed

lemma main_while_store_irrelevant:
  "(\<exists>e. main_while strtof fp buf a 0 = Inl e \<and> main_while strtof fp buf' b 0 = Inl e)
   \<or> (\<exists>fp1 l1 a1 n1 fp2 l2 b1.
        main_while strtof fp buf a 0 = Inr (fp1, l1, a1, n1)
        \<and> main_while strtof fp buf' b 0 = Inr (fp2, l2, b1, n1)
        \<and> eof fp1 = eof fp2 \<and> same_atoms n1 a1 b1)"
proof (cases "main_while strtof fp buf a 0")
  case (Inl e)
  then have "while_lines strtof (lines_read fp) a 0 = Inl e"
    using main_while_lines [of strtof fp buf a 0] by (simp add: store_and_count_def)
  then have "while_lines strtof (lines_read fp) b 0 = Inl e"
    by (rule while_lines_Inl_store)
  then have "main_while strtof fp buf' b 0 = Inl e"
    using main_while_lines [of strtof fp buf' b 0]
    by (auto simp: store_and_count_def split: sum.splits)
  with Inl show ?thesis by simp
next
  case (Inr r)
  then obtain fp1 l1 a1 n1 where r: "main_while strtof fp buf a 0 = Inr (fp1, l1, a1, n1)"
    by (cases r) auto
  then have "while_lines strtof (lines_read fp) a 0 = Inr (a1, n1)"
    using main_while_lines [of strtof fp buf a 0] by (simp add: store_and_count_def)
  from while_lines_same_atoms [OF this, of b] obtain b1 where
    b: "while_lines strtof (lines_read fp) b 0 = Inr (b1, n1)" and same: "same_atoms n1 a1 b1"
    by blast
  from b obtain fp2 l2 where r2: "main_while strtof fp buf' b 0 = Inr (fp2, l2, b1, n1)"
    using main_while_lines [of strtof fp buf' b 0]
    by (auto simp: store_and_count_def split: sum.splits)
  have "eof fp1 = eof fp2"
    using main_while_eof [OF r] main_while_eof [OF r2] by simp
  then show ?thesis
    using r r2 same by blast
qed

lemma main_for_vars: "main_for strtof fs args v1 = main_for strtof fs args v2"
proof (induction args arbitrary: v1 v2)
  case Nil
  show ?case by simp
next
  case (Cons arg args)
  show ?case
  proof (cases "fopen fs arg")
    case None
    then show ?thesis by simp
  next
    case (Some fp)
    from main_while_store_irrelevant [of strtof fp "fileLine v1" "fileAtoms v1" "fileLine v2" "fileAtoms v2"]
    consider e where "main_while strtof fp (fileLine v1) (fileAtoms v1) 0 = Inl e"
        "main_while strtof fp (fileLine v2) (fileAtoms v2) 0 = Inl e"
      | fp1 l1 a1 n fp2 l2 a2 where
        "main_while strtof fp (fileLine v1) (fileAtoms v1) 0 = Inr (fp1, l1, a1, n)"
        "main_while strtof fp (fileLine v2) (fileAtoms v2) 0 = Inr (fp2, l2, a2, n)"
        "eof fp1 = eof fp2" "same_atoms n a1 a2"
      by blast
    then show ?thesis
    proof cases
      case 1
      with Some show ?thesis by simp
    next
      case 2
      obtain cg1 gc1 where c1: "calCenterOfGravity n a1 (gravityCenter v1) = (cg1, gc1)"
        by (cases "calCenterOfGravity n a1 (gravityCenter v1)")
      obtain cg2 gc2 where c2: "calCenterOfGravity n a2 (gravityCenter v2) = (cg2, gc2)"
        by (cases "calCenterOfGravity n a2 (gravityCenter v2)")
      have cg: "cg1 = cg2"
        using calCenterOfGravity_cong(1) [OF 2(4), of "gravityCenter v1" "gravityCenter v2"] c1 c2
        by simp
      have gc: "gc1 0 = gc2 0" "gc1 1 = gc2 1" "gc1 2 = gc2 2"
        using calCenterOfGravity_cong(2) [OF 2(4), of _ "gravityCenter v1" "gravityCenter v2"] c1 c2
        by simp_all
      have rg: "calRotationRadious n a1 gc1 = calRotationRadious n a2 gc2"
        using 2(4) gc by (rule calRotationRadious_cong)
      have dm: "calMaxDistance n a1 = calMaxDistance n a2"
        using 2(4) by (rule calMaxDistance_cong)
      have rec: "main_for strtof fs args \<lparr>fileLine = l1, fileAtoms = a1, gravityCenter = gc1\<rparr>
                 = main_for strtof fs args \<lparr>fileLine = l2, fileAtoms = a2, gravityCenter = gc2\<rparr>"
        by (rule Cons.IH)
      show ?thesis
        using Some 2(1,2,3) by (simp add: c1 c2 cg rg dm rec)
    qed
  qed
qed

lemma getFloat_Exited: "getFloat strtof input \<noteq> Inl (OutOfBounds k)"
  "getFloat strtof input = Inl (Exited m st) \<Longrightarrow> st = EXIT_FAILURE \<and> m = ConversionErr (c_str input)"
  by (auto simp: getFloat_def split: prod.splits if_splits)

lemma parseLine_Exited:
  "parseLine strtof l n a = Inl (Exited m st) \<Longrightarrow> st = EXIT_FAILURE"
  by (auto simp: parseLine_def Let_def split: sum.splits if_splits dest: getFloat_Exited(2))

lemma while_lines_Exited:
  "while_lines strtof ls a n = Inl (Exited m st) \<Longrightarrow> st = EXIT_FAILURE"
proof (induction ls arbitrary: a n)
  case Nil
  then show ?case by simp
next
  case (Cons l ls)
  then show ?case
    by (auto split: if_splits sum.splits dest: parseLine_Exited)
qed

lemma main_while_Exited:
  "main_while strtof fp buf a n = Inl (Exited m st) \<Longrightarrow> st = EXIT_FAILURE"
  using main_while_lines [of strtof fp buf a n] while_lines_Exited [of strtof "lines_read fp" a n m st]
  by (simp add: store_and_count_def)

lemma main_for_append:
  "main_for strtof fs prior v = (out, Exit 0) \<Longrightarrow>
   main_for strtof fs (prior @ rest) v
     = (out @ fst (main_for strtof fs rest v'), snd (main_for strtof fs rest v'))"
proof (induction prior arbitrary: v out)
  case Nil
  then show ?case
    using main_for_vars [of strtof fs rest v v'] by simp
next
  case (Cons arg prior)
  from Cons.prems obtain fp where fp: "fopen fs arg = Some fp"
    by (cases "fopen fs arg") auto
  from Cons.prems fp obtain fp1 l1 a1 n where
    w: "main_while strtof fp (fileLine v) (fileAtoms v) 0 = Inr (fp1, l1, a1, n)"
    by (cases "main_while strtof fp (fileLine v) (fileAtoms v) 0")
       (auto split: abort.splits dest: main_while_Exited simp: EXIT_FAILURE_def)
  from Cons.prems fp w have ok: "eof fp1" "n \<noteq> 0"
    by (auto split: if_splits)
  obtain cg gc where c: "calCenterOfGravity n a1 (gravityCenter v) = (cg, gc)"
    by (cases "calCenterOfGravity n a1 (gravityCenter v)")
  let ?v1 = "\<lparr>fileLine = l1, fileAtoms = a1, gravityCenter = gc\<rparr>"
  obtain later r where later: "main_for strtof fs prior ?v1 = (later, r)"
    by (cases "main_for strtof fs prior ?v1")
  from Cons.prems fp w ok c later have r: "r = Exit 0" and
    out: "out = [AtomsRead arg n, cg, calRotationRadious n a1 gc, calMaxDistance n a1] @ later"
    by simp_all
  from later r have "main_for strtof fs prior ?v1 = (later, Exit 0)"
    by simp
  from Cons.IH [OF this] show ?case
    using fp w ok c by (simp add: out)
qed

lemma main_for_fs_cong:
  "(\<And>name. name \<in> set args \<Longrightarrow> fs1 name = fs2 name) \<Longrightarrow>
   main_for strtof fs1 args v = main_for strtof fs2 args v"
proof (induction args arbitrary: v)
  case Nil
  show ?case by simp
next
  case (Cons arg args)
  have "fopen fs1 arg = fopen fs2 arg"
    using Cons.prems [of arg] by (simp add: fopen_def)
  moreover have "main_for strtof fs1 args w = main_for strtof fs2 args w" for w
    using Cons.prems by (intro Cons.IH) simp
  ultimately show ?case
    by (simp cong: option.case_cong sum.case_cong abort.case_cong prod.case_cong if_cong)
qed

section \<open>Reading whole lines\<close>

lemma read_line_Cons:
  "read_line k (b # bs) = (if k = 0 then [] else if b = CHR 0x0A then [b] else b # read_line (k - 1) bs)"
  by (cases k) simp_all

lemma read_line_whole:
  assumes "l \<noteq> []" "length l \<le> k" "last l = CHR 0x0A" "CHR 0x0A \<notin> set (butlast l)"
  shows "read_line k (l @ rest) = l"
  using assms
proof (induction k "l @ rest" arbitrary: l rule: read_line.induct)
  case (1 bs)
  then show ?case by simp
next
  case (2 k)
  then show ?case by simp
next
  case (3 k b bs)
  then obtain l' where l: "l = b # l'"
    by (cases l) auto
  show ?case
  proof (cases "l' = []")
    case True
    with 3 l show ?thesis by simp
  next
    case False
    with 3 l have "b \<noteq> CHR 0x0A" by auto
    moreover have "read_line k (l' @ rest) = l'"
      using 3 l False by (intro "3.hyps") auto
    ultimately show ?thesis
      using l by simp
  qed
qed

lemma lines_read_line:
  assumes "l \<noteq> []" "length l < MAX_LINE" "last l = CHR 0x0A" "CHR 0x0A \<notin> set (butlast l)"
  shows "lines_read \<lparr>pending = l @ rest, fails = bad, eof = e\<rparr>
           = c_str l # lines_read \<lparr>pending = rest, fails = bad, eof = e\<rparr>"
proof -
  have rl: "read_line (MAX_LINE - Suc 0) (l @ rest) = l"
    using assms by (intro read_line_whole) auto
  have "fgets [] MAX_LINE \<lparr>pending = l @ rest, fails = bad, eof = e\<rparr>
          = (Some (l @ [END_OF_STRING]), \<lparr>pending = rest, fails = bad, eof = e\<rparr>)"
    using assms by (simp add: fgets_def rl Let_def)
  from lines_read_Some [OF this] show ?thesis
    by (simp add: c_str_append_NUL [of l "[]"])
qed

lemma lines_read_end: "lines_read \<lparr>pending = [], fails = bad, eof = e\<rparr> = []"
  by (subst lines_read.simps) (simp add: fgets_def Let_def read_line_Nil)

lemma lines_read_final_line:
  assumes "l \<noteq> []" "length l < MAX_LINE" "last l = CHR 0x0A" "CHR 0x0A \<notin> set (butlast l)"
  shows "lines_read \<lparr>pending = l, fails = bad, eof = e\<rparr> = [c_str l]"
  using lines_read_line [OF assms, of "[]" bad e] by (simp only: append_Nil2 lines_read_end)

section \<open>One file, as a function of its lines\<close>

lemma main_for_Cons_eval:
  assumes "fs arg = Some (bytes, bad)"
  shows "main_for strtof fs (arg # args) vars =
     (case while_lines strtof (file_lines bytes bad) (\<lambda>_ _. 0) 0 of
        Inl (Exited msg status) \<Rightarrow> ([msg], Exit status)
      | Inl (OutOfBounds k) \<Rightarrow> ([], Undefined)
      | Inr (a, n) \<Rightarrow>
          if bad \<or> n = 0 then ([ZeroAtoms arg], Exit 1)
          else ([AtomsRead arg n, Cg (centroid n a 0) (centroid n a 1) (centroid n a 2),
                 calRotationRadious n a (centroid n a), calMaxDistance n a]
                @ fst (main_for strtof fs args vars),
                snd (main_for strtof fs args vars)))"
proof -
  let ?fp = "\<lparr>pending = bytes, fails = bad, eof = False\<rparr>"
  have fp: "fopen fs arg = Some ?fp"
    using assms by (simp add: fopen_def)
  let ?z = "(\<lambda>_ _. 0) :: atoms"
  from main_while_store_irrelevant [of strtof ?fp "fileLine vars" "fileAtoms vars" "[]" ?z]
  consider e where "main_while strtof ?fp (fileLine vars) (fileAtoms vars) 0 = Inl e"
      "main_while strtof ?fp [] ?z 0 = Inl e"
    | fp1 l1 a1 n fp2 l2 a2 where
      "main_while strtof ?fp (fileLine vars) (fileAtoms vars) 0 = Inr (fp1, l1, a1, n)"
      "main_while strtof ?fp [] ?z 0 = Inr (fp2, l2, a2, n)"
      "eof fp1 = eof fp2" "same_atoms n a1 a2"
    by blast
  then show ?thesis
  proof cases
    case 1
    from 1(2) have "while_lines strtof (file_lines bytes bad) ?z 0 = Inl e"
      using main_while_lines [of strtof ?fp "[]" ?z 0]
      by (simp add: store_and_count_def file_lines_def)
    with fp 1(1) show ?thesis
      by (simp split: abort.splits)
  next
    case 2
    from 2(2) have wl: "while_lines strtof (file_lines bytes bad) ?z 0 = Inr (a2, n)"
      using main_while_lines [of strtof ?fp "[]" ?z 0]
      by (simp add: store_and_count_def file_lines_def)
    have eof: "eof fp1 = (\<not> bad)"
      using main_while_eof [OF 2(1)] by simp
    let ?gc = "snd (calCenterOfGravity n a1 (gravityCenter vars))"
    have cen: "centroid n a1 k = centroid n a2 k" if "k \<in> {0, 1, 2}" for k
      using 2(4) that by (rule centroid_cong)
    have rg: "calRotationRadious n a1 ?gc = calRotationRadious n a2 (centroid n a2)"
      using 2(4) by (rule calRotationRadious_cong) (simp_all add: calCenterOfGravity_centroid cen)
    have dm: "calMaxDistance n a1 = calMaxDistance n a2"
      using 2(4) by (rule calMaxDistance_cong)
    let ?v1 = "\<lparr>fileLine = l1, fileAtoms = a1, gravityCenter = ?gc\<rparr>"
    have rec: "main_for strtof fs args ?v1 = main_for strtof fs args vars"
      by (rule main_for_vars)
    have "main_for strtof fs (arg # args) vars =
            (if bad \<or> n = 0 then ([ZeroAtoms arg], Exit 1)
             else ([AtomsRead arg n, Cg (centroid n a1 0) (centroid n a1 1) (centroid n a1 2),
                    calRotationRadious n a1 ?gc, calMaxDistance n a1]
                   @ fst (main_for strtof fs args ?v1),
                   snd (main_for strtof fs args ?v1)))"
      using fp 2(1) eof
      by (simp add: calCenterOfGravity_centroid split: prod.splits)
    then show ?thesis
      by (simp add: wl rg dm rec cen)
  qed
qed


lemma fgets_line:
  assumes "l \<noteq> []" "length l < MAX_LINE" "last l = CHR 0x0A" "CHR 0x0A \<notin> set (butlast l)"
  shows "fgets buf MAX_LINE \<lparr>pending = l @ rest, fails = bad, eof = e\<rparr>
          = (Some (l @ [END_OF_STRING] @ drop (length l + 1) buf),
             \<lparr>pending = rest, fails = bad, eof = e\<rparr>)"
proof -
  have rl: "read_line (MAX_LINE - Suc 0) (l @ rest) = l"
    using assms by (intro read_line_whole) auto
  show ?thesis
    using assms by (simp add: fgets_def rl Let_def)
qed

lemma fgets_final_line:
  assumes "l \<noteq> []" "length l < MAX_LINE" "last l = CHR 0x0A" "CHR 0x0A \<notin> set (butlast l)"
  shows "fgets buf MAX_LINE \<lparr>pending = l, fails = bad, eof = e\<rparr>
          = (Some (l @ [END_OF_STRING] @ drop (length l + 1) buf),
             \<lparr>pending = [], fails = bad, eof = e\<rparr>)"
  using fgets_line [OF assms, of buf "[]" bad e] by (simp only: append_Nil2)

lemma read_line_all:
  "CHR 0x0A \<notin> set l \<Longrightarrow> length l \<le> k \<Longrightarrow> read_line k l = l"
  by (induction k l rule: read_line.induct) auto

lemma fgets_last_line:
  assumes "l \<noteq> []" "length l < MAX_LINE - 1" "CHR 0x0A \<notin> set l"
  shows "fgets buf MAX_LINE \<lparr>pending = l, fails = False, eof = e\<rparr>
          = (Some (l @ [END_OF_STRING] @ drop (length l + 1) buf),
             \<lparr>pending = [], fails = False, eof = True\<rparr>)"
proof -
  have rl: "read_line (MAX_LINE - Suc 0) l = l"
    using assms by (intro read_line_all) auto
  have "last l \<noteq> CHR 0x0A"
    using assms(1,3) last_in_set by metis
  then show ?thesis
    using assms by (simp add: fgets_def rl Let_def)
qed

lemma lines_read_last_line:
  assumes "l \<noteq> []" "length l < MAX_LINE - 1" "CHR 0x0A \<notin> set l"
  shows "lines_read \<lparr>pending = l, fails = False, eof = e\<rparr> = [c_str l]"
  using lines_read_Some [OF fgets_last_line [OF assms, of "[]" e]]
  by (simp add: lines_read_end c_str_append_NUL [of l "[]"])

lemma getFloat_Inl:
  "getFloat strtof input = Inl e \<Longrightarrow> e = Exited (ConversionErr (c_str input)) EXIT_FAILURE"
  by (auto simp: getFloat_def split: prod.splits if_splits)

lemma c_str_coordinate_field:
  "c_str (coordinate_field (c_str l) k) = coordinate_field (c_str l) k"
proof -
  have "END_OF_STRING \<notin> set (coordinate_field (c_str l) k)"
    unfolding coordinate_field_def using c_str_no_NUL [of l]
    by (auto dest!: in_set_takeD in_set_dropD)
  then show ?thesis
    unfolding c_str_def by (intro takeWhile_eq_all_conv [THEN iffD2]) auto
qed

lemma parseLine_not_well_formed:
  assumes "MIN_LINE_LEN < strlen l" "\<not> well_formed strtof l" "0 \<le> n" "n < MAX_ATOMS"
  shows "\<exists>k \<in> {0, 1, 2}.
           parseLine strtof l n a
             = Inl (Exited (ConversionErr (coordinate_field (c_str l) k)) EXIT_FAILURE)
           \<and> \<not> converts strtof (coordinate_field (c_str l) k)"
proof -
  let ?f = "\<lambda>k. coordinate_field (c_str l) k"
  have e: "getFloat strtof (?f k) = Inl (Exited (ConversionErr (?f k)) EXIT_FAILURE)"
    if "\<not> converts strtof (?f k)" for k
  proof (cases "getFloat strtof (?f k)")
    case (Inl e)
    from getFloat_Inl [OF this] Inl show ?thesis
      by (simp add: c_str_coordinate_field)
  next
    case (Inr v)
    with that show ?thesis by (simp add: converts_def)
  qed
  have c: "\<exists>v. getFloat strtof (?f k) = Inr v" if "converts strtof (?f k)" for k
    using that by (auto simp: converts_def split: sum.splits)
  consider "\<not> converts strtof (?f 0)"
    | "converts strtof (?f 0)" "\<not> converts strtof (?f 1)"
    | "converts strtof (?f 0)" "converts strtof (?f 1)" "\<not> converts strtof (?f 2)"
    using assms(1,2) by (auto simp: well_formed_def)
  then show ?thesis
  proof cases
    case 1
    then have "parseLine strtof l n a = Inl (Exited (ConversionErr (?f 0)) EXIT_FAILURE)"
      using e [of 0] by (simp add: parseLine_fields [OF assms(1)])
    with 1 show ?thesis by blast
  next
    case 2
    then have "parseLine strtof l n a = Inl (Exited (ConversionErr (?f 1)) EXIT_FAILURE)"
      using e [of 1] c [of 0] assms(3,4) by (auto simp: parseLine_fields [OF assms(1)])
    with 2 show ?thesis by blast
  next
    case 3
    then have "parseLine strtof l n a = Inl (Exited (ConversionErr (?f 2)) EXIT_FAILURE)"
      using e [of 2] c [of 0] c [of 1] assms(3,4) by (auto simp: parseLine_fields [OF assms(1)])
    with 3 show ?thesis by blast
  qed
qed

lemma while_lines_append:
  "while_lines strtof (pre @ post) a n =
     (case while_lines strtof pre a n of
        Inl e \<Rightarrow> Inl e
      | Inr (a', n') \<Rightarrow> while_lines strtof post a' n')"
  by (induction pre arbitrary: a n) (auto split: sum.splits)

lemma while_lines_well_formed:
  assumes "\<forall>l \<in> set (atom_records ls). well_formed strtof l"
    and "0 \<le> n" and "n + int (length (atom_records ls)) \<le> MAX_ATOMS"
  shows "\<exists>a'. while_lines strtof ls a n = Inr (a', n + int (length (atom_records ls)))"
proof -
  from assms have "\<exists>r. while_lines strtof ls a n = Inr r"
    unfolding while_lines_Inr_iff by blast
  then obtain a' n' where r: "while_lines strtof ls a n = Inr (a', n')"
    by auto
  from while_lines_count [OF r] r show ?thesis
    by simp
qed

lemma main_for_conversion_error:
  assumes "fs arg = Some (bytes, bad)" and "file_lines bytes bad = pre @ line # post"
    and "\<forall>l \<in> set (atom_records pre). well_formed strtof l"
    and "int (length (atom_records pre)) < MAX_ATOMS"
    and "startsWith line" and "MIN_LINE_LEN < strlen line" and "\<not> well_formed strtof line"
  shows "\<exists>k \<in> {0, 1, 2}.
           main_for strtof fs (arg # args) vars
             = ([ConversionErr (coordinate_field (c_str line) k)], Exit EXIT_FAILURE)
           \<and> \<not> converts strtof (coordinate_field (c_str line) k)"
proof -
  let ?z = "(\<lambda>_ _. 0) :: atoms"
  let ?n = "int (length (atom_records pre))"
  from while_lines_well_formed [OF assms(3), of 0 ?z] assms(4)
  obtain a' where pre: "while_lines strtof pre ?z 0 = Inr (a', ?n)"
    by auto
  from parseLine_not_well_formed [OF assms(6,7), of ?n a'] assms(4)
  obtain k where k: "k \<in> {0, 1, 2}"
    "parseLine strtof line ?n a'
       = Inl (Exited (ConversionErr (coordinate_field (c_str line) k)) EXIT_FAILURE)"
    "\<not> converts strtof (coordinate_field (c_str line) k)"
    by auto
  have "while_lines strtof (file_lines bytes bad) ?z 0
          = Inl (Exited (ConversionErr (coordinate_field (c_str line) k)) EXIT_FAILURE)"
    using assms(5,6) by (simp add: assms(2) while_lines_append pre k(2))
  then have "main_for strtof fs (arg # args) vars
             = ([ConversionErr (coordinate_field (c_str line) k)], Exit EXIT_FAILURE)"
    using assms(1) by (simp add: main_for_Cons_eval [of fs arg bytes bad] del: main_for.simps)
  with k(1,3) show ?thesis
    by blast
qed

section \<open>The statistics as functions of the atoms\<close>










section \<open>Writes past the store\<close>

lemma parseLine_OutOfBounds:
  "parseLine strtof l n a = Inl (OutOfBounds k) \<Longrightarrow> k = n \<and> (n < 0 \<or> MAX_ATOMS \<le> n)"
  by (auto simp: parseLine_def Let_def split: sum.splits if_splits
      dest: getFloat_Inl)

lemma while_lines_OutOfBounds:
  "while_lines strtof ls a n = Inl (OutOfBounds k) \<Longrightarrow> 0 \<le> n \<Longrightarrow> n \<le> MAX_ATOMS \<Longrightarrow>
   k = MAX_ATOMS \<and> MAX_ATOMS < n + int (length (atom_records ls))"
proof (induction ls arbitrary: a n)
  case Nil
  then show ?case by simp
next
  case (Cons l ls)
  show ?case
  proof (cases "startsWith l")
    case False
    with Cons.prems have "while_lines strtof ls a n = Inl (OutOfBounds k)"
      by simp
    from Cons.IH [OF this Cons.prems(2,3)] False show ?thesis
      by (simp add: atom_records_def)
  next
    case yes: True
    with Cons.prems have long: "MIN_LINE_LEN < strlen l"
      by (simp split: if_splits)
    have recs: "atom_records (l # ls) = l # atom_records ls"
      using yes by (simp add: atom_records_def)
    show ?thesis
    proof (cases "parseLine strtof l n a")
      case (Inl e)
      with Cons.prems yes long have "parseLine strtof l n a = Inl (OutOfBounds k)"
        by simp
      from parseLine_OutOfBounds [OF this] Cons.prems(2,3) show ?thesis
        by (simp add: recs)
    next
      case (Inr a')
      with Cons.prems yes long have w: "while_lines strtof ls a' (n + 1) = Inl (OutOfBounds k)"
        by simp
      from parseLine_Inr_well_formed [OF long Inr] have "n < MAX_ATOMS"
        by simp
      with Cons.IH [OF w] Cons.prems(2) show ?thesis
        by (simp add: recs)
    qed
  qed
qed

lemma while_lines_overrun:
  assumes "MAX_ATOMS < int (length (atom_records ls))"
    and "\<forall>l \<in> set (take (nat MAX_ATOMS) (atom_records ls)). well_formed strtof l"
    and "MIN_LINE_LEN < strlen (atom_records ls ! nat MAX_ATOMS)"
    and "converts strtof (coordinate_field (c_str (atom_records ls ! nat MAX_ATOMS)) 0)"
  shows "while_lines strtof ls a 0 = Inl (OutOfBounds MAX_ATOMS)"
proof -
  let ?recs = "atom_records ls"
  let ?m = "nat MAX_ATOMS"
  let ?l = "?recs ! ?m"
  have m: "?m < length ?recs" "int ?m = MAX_ATOMS"
    using assms(1) by (simp_all add: MAX_ATOMS_def)
  have split: "?recs = take ?m ?recs @ ?l # drop (Suc ?m) ?recs"
    using m(1) by (simp add: id_take_nth_drop)
  have "\<forall>x \<in> set (take ?m ?recs). startsWith x"
    by (auto dest!: in_set_takeD simp: atom_records_def)
  then have all: "atom_records (take ?m ?recs) = take ?m ?recs"
    unfolding atom_records_def [of "take ?m ?recs"] by (simp only: filter_id_conv)
  have "\<forall>l \<in> set (atom_records (take ?m ?recs)). well_formed strtof l"
    using assms(2) by (simp add: all)
  moreover have "0 + int (length (atom_records (take ?m ?recs))) \<le> MAX_ATOMS"
    using m by (simp add: all)
  ultimately obtain a' where
    pre: "while_lines strtof (take ?m ?recs) a 0
            = Inr (a', 0 + int (length (atom_records (take ?m ?recs))))"
    using while_lines_well_formed [of "take ?m ?recs" strtof 0 a] by auto
  have n: "0 + int (length (atom_records (take ?m ?recs))) = MAX_ATOMS"
    using m by (simp add: all)
  have s: "startsWith ?l"
    using m(1) nth_mem [of ?m ?recs] by (simp add: atom_records_def)
  from assms(4) obtain x where x: "getFloat strtof (coordinate_field (c_str ?l) 0) = Inr x"
    by (auto simp: converts_def split: sum.splits)
  have p: "parseLine strtof ?l MAX_ATOMS a' = Inl (OutOfBounds MAX_ATOMS)"
    by (simp add: parseLine_fields [OF assms(3)] x)
  have "while_lines strtof ls a 0 = while_lines strtof ?recs a 0"
    by (simp add: atom_records_def while_lines_filter)
  also have "\<dots> = while_lines strtof (take ?m ?recs @ ?l # drop (Suc ?m) ?recs) a 0"
    using split by simp
  also have "\<dots> = Inl (OutOfBounds MAX_ATOMS)"
    unfolding while_lines_append pre n using s assms(3) p by simp
  finally show ?thesis .
qed

lemma lines_read_replicate:
  assumes "l \<noteq> []" "length l < MAX_LINE" "last l = CHR 0x0A" "CHR 0x0A \<notin> set (butlast l)"
  shows "lines_read \<lparr>pending = concat (replicate k l) @ rest, fails = bad, eof = e\<rparr>
           = replicate k (c_str l) @ lines_read \<lparr>pending = rest, fails = bad, eof = e\<rparr>"
proof (induction k)
  case 0
  show ?case by simp
next
  case (Suc k)
  have "lines_read \<lparr>pending = l @ (concat (replicate k l) @ rest), fails = bad, eof = e\<rparr>
          = c_str l # lines_read \<lparr>pending = concat (replicate k l) @ rest, fails = bad, eof = e\<rparr>"
    using assms by (rule lines_read_line)
  with Suc show ?case
    by simp
qed

section \<open>The example files\<close>

lemma lines_read_two: "lines_read \<lparr>pending = origin_line @ remark_line @ x2_line, fails = False, eof = False\<rparr>
   = [origin_line, remark_line, x2_line]"
  apply (subst lines_read_line)
      apply (simp_all add: origin_line_def MAX_LINE_def)[4]
  apply (subst lines_read_line)
      apply (simp_all add: remark_line_def MAX_LINE_def)[4]
  apply (subst lines_read_final_line)
      apply (simp_all add: x2_line_def MAX_LINE_def)[4]
  apply (simp add: c_str_def origin_line_def remark_line_def x2_line_def END_OF_STRING_def)
  done

lemma file_lines_two:
  "file_lines (origin_line @ remark_line @ x2_line) False = [origin_line, remark_line, x2_line]"
  unfolding file_lines_def by (rule lines_read_two)

lemma origin_line_facts:
  "startsWith origin_line" "MIN_LINE_LEN < strlen origin_line"
  "coordinate_field (c_str origin_line) 0 = ''   0.000''"
  "coordinate_field (c_str origin_line) 1 = ''   0.000''"
  "coordinate_field (c_str origin_line) 2 = ''   0.000''"
  by (simp_all add: startsWith_iff strlen_def c_str_def origin_line_def END_OF_STRING_def
      MIN_LINE_LEN_def coordinate_field_def COORDINATE_LEN_def)

lemma x2_line_facts:
  "startsWith x2_line" "MIN_LINE_LEN < strlen x2_line"
  "coordinate_field (c_str x2_line) 0 = ''   2.000''"
  "coordinate_field (c_str x2_line) 1 = ''   0.000''"
  "coordinate_field (c_str x2_line) 2 = ''   0.000''"
  by (simp_all add: startsWith_iff strlen_def c_str_def x2_line_def END_OF_STRING_def
      MIN_LINE_LEN_def coordinate_field_def COORDINATE_LEN_def)

lemma remark_line_facts: "\<not> startsWith remark_line"
  by (simp add: startsWith_iff c_str_def remark_line_def END_OF_STRING_def)

lemma getFloat_decimal_examples:
  "getFloat strtof_decimal ''   0.000'' = Inr 0"
  "getFloat strtof_decimal ''   2.000'' = Inr 2"
  by (simp_all add: getFloat_def strtof_decimal_def c_str_def END_OF_STRING_def isspace_def
      isdigit_def decimal_value_def Let_def)

lemma while_two:
  "while_lines strtof_decimal [origin_line, remark_line, x2_line] (\<lambda>_ _. 0) 0
   = Inr (((\<lambda>_ _. 0)(0 := (\<lambda>_. 0)(0 := 0, 1 := 0, 2 := 0)))(1 := (\<lambda>_. 0)(0 := 2, 1 := 0, 2 := 0)), 2)"
  by (simp add: origin_line_facts x2_line_facts remark_line_facts parseLine_fields
      getFloat_decimal_examples MAX_ATOMS_def)

lemma main_two_atoms: "main strtof_decimal two_atoms_fs g [''AnalyzeProtein'', ''two.pdb'']
  = ([AtomsRead ''two.pdb'' 2, Cg 1 0 0, Rg 1, Dmax 2], Exit 0)"
  apply (simp add: main_def MIN_ARGS_def del: main_for.simps)
  apply (subst main_for_Cons_eval [where bytes = "origin_line @ remark_line @ x2_line" and bad = False])
   apply (simp add: two_atoms_fs_def)
  apply (simp only: file_lines_two while_two)
  apply (simp add: centroid_def sum_int_range_split calRotationRadious_def calRotationRadious_for_sum calDistance_def
      calMaxDistance_def calMaxDistance_for_i.simps calMaxDistance_for_j.simps)
  done



lemma sixty_line_facts:
  "length sixty_line = 60" "startsWith sixty_line" "strlen sixty_line = 60"
  "c_str sixty_line = sixty_line" "CHR 0x0A \<notin> set sixty_line" "sixty_line \<noteq> []"
  by (simp_all add: sixty_line_def startsWith_iff strlen_def c_str_def END_OF_STRING_def)

lemma bad_y_line_facts:
  "startsWith bad_y_line" "MIN_LINE_LEN < strlen bad_y_line"
  "coordinate_field (c_str bad_y_line) 0 = ''   1.000''"
  "coordinate_field (c_str bad_y_line) 1 = ''   n/a  ''"
  "coordinate_field (c_str bad_y_line) 2 = ''   0.000''"
  by (simp_all add: startsWith_iff strlen_def c_str_def bad_y_line_def END_OF_STRING_def
      MIN_LINE_LEN_def coordinate_field_def COORDINATE_LEN_def)

lemma getFloat_decimal_more:
  "getFloat strtof_decimal ''   1.000'' = Inr 1"
  "getFloat strtof_decimal ''   n/a  '' = Inl (Exited (ConversionErr ''   n/a  '') EXIT_FAILURE)"
  by (simp_all add: getFloat_def strtof_decimal_def c_str_def END_OF_STRING_def isspace_def
      isdigit_def decimal_value_def Let_def)

lemma file_lines_bad_y:
  "file_lines (origin_line @ bad_y_line) False = [origin_line] @ [bad_y_line]"
  unfolding file_lines_def
  apply (subst lines_read_line)
      apply (simp_all add: origin_line_def MAX_LINE_def)[4]
  apply (subst lines_read_final_line)
      apply (simp_all add: bad_y_line_def MAX_LINE_def)[4]
  apply (simp add: c_str_def origin_line_def bad_y_line_def END_OF_STRING_def)
  done


lemma file_lines_big:
  "file_lines (concat (replicate 20001 x2_line)) False = replicate 20001 x2_line"
proof -
  have cs: "c_str x2_line = x2_line"
    by (simp add: c_str_def x2_line_def END_OF_STRING_def)
  have "x2_line \<noteq> []" "length x2_line < MAX_LINE" "last x2_line = CHR 0x0A"
    "CHR 0x0A \<notin> set (butlast x2_line)"
    by (simp_all add: x2_line_def MAX_LINE_def)
  then have "lines_read \<lparr>pending = concat (replicate 20001 x2_line) @ [], fails = False, eof = False\<rparr>
      = replicate 20001 (c_str x2_line) @ lines_read \<lparr>pending = [], fails = False, eof = False\<rparr>"
    by (rule lines_read_replicate)
  then show ?thesis
    by (simp add: file_lines_def lines_read_end cs)
qed

lemma well_formed_x2_line: "well_formed strtof_decimal x2_line"
  by (simp add: well_formed_def x2_line_facts converts_def getFloat_decimal_examples)

lemma file_lines_one: "file_lines (x2_line) False = [x2_line]"
  unfolding file_lines_def
  apply (subst lines_read_final_line)
      apply (simp_all add: x2_line_def MAX_LINE_def)[4]
  apply (simp add: c_str_def x2_line_def END_OF_STRING_def)
  done

lemma while_one:
  "while_lines strtof_decimal [x2_line] (\<lambda>_ _. 0) 0
   = Inr ((\<lambda>_ _. 0)(0 := (\<lambda>_. 0)(0 := 2, 1 := 0, 2 := 0)), 1)"
  by (simp add: x2_line_facts parseLine_fields getFloat_decimal_examples MAX_ATOMS_def)

lemma main_one_atom:
  "main strtof_decimal two_atoms_fs g [''AnalyzeProtein'', ''one.pdb'']
  = ([AtomsRead ''one.pdb'' 1, Cg 2 0 0, Rg 0, Dmax 0], Exit 0)"
  apply (simp add: main_def MIN_ARGS_def del: main_for.simps)
  apply (subst main_for_Cons_eval [where bytes = "x2_line" and bad = False])
   apply (simp add: two_atoms_fs_def)
  apply (simp only: file_lines_one while_one)
  apply (simp add: centroid_def sum_int_range_split calRotationRadious_def calRotationRadious_for_sum calDistance_def
      calMaxDistance_def calMaxDistance_for_i.simps calMaxDistance_for_j.simps)
  done

section \<open>The claims\<close>

subsection \<open>The centre of gravity\<close>



subsection \<open>The radius of gyration\<close>



subsection \<open>The maximum distance\<close>


subsection \<open>Short lines\<close>

text \<open>
  Claim C4 as stated fails. A file that ends, without a newline, in an atom record of
  exactly 60 characters: the record is at least 60 characters long, and the program
  reports it as too short and exits with \<open>EXIT_FAILURE\<close>.
\<close>

theorem sixty_characters_counterexample:
  "length sixty_line = 60 \<and> startsWith sixty_line
   \<and> main strtof_decimal sixty_fs (\<lambda>_. 0) [''AnalyzeProtein'', ''sixty.pdb'']
       = ([TooShort 60], Exit EXIT_FAILURE)"
proof -
  have fl: "file_lines sixty_line False = [sixty_line]"
    unfolding file_lines_def
    by (subst lines_read_last_line) (simp_all add: sixty_line_facts MAX_LINE_def)
  have "main strtof_decimal sixty_fs (\<lambda>_. 0) [''AnalyzeProtein'', ''sixty.pdb'']
       = ([TooShort 60], Exit EXIT_FAILURE)"
    apply (simp add: main_def MIN_ARGS_def del: main_for.simps)
    apply (subst main_for_Cons_eval [where bytes = sixty_line and bad = False])
     apply (simp add: sixty_fs_def)
    apply (simp add: fl sixty_line_facts MIN_LINE_LEN_def)
    done
  then show ?thesis
    by (simp add: sixty_line_facts)
qed

text \<open>
  Claim C4, amended. For a line that \<open>fgets\<close> has delivered and that \<open>startsWith\<close>
  accepts: if its length (the newline that \<open>fgets\<close> keeps included) is greater than 60,
  it is parsed, and when its three fields convert and the count is inside the store the
  atom is stored at the current count and the loop goes on with the count plus one
  (otherwise the program ends there); if its length is 60 or less, the program ends with
  the message that names this length and with the non-zero status \<open>EXIT_FAILURE\<close>.
\<close>

theorem classified_line_length:
  assumes "fgets buf MAX_LINE fp = (Some line, fp')" and "startsWith line"
  shows "if MIN_LINE_LEN < strlen line
         then (if well_formed strtof line \<and> 0 \<le> n \<and> n < MAX_ATOMS
               then main_while strtof fp buf a n
                      = main_while strtof fp' line
                          (a(n := (a n)(0 := coordinate strtof line 0,
                                        1 := coordinate strtof line 1,
                                        2 := coordinate strtof line 2)))
                          (n + 1)
               else \<exists>e. main_while strtof fp buf a n = Inl e)
         else main_while strtof fp buf a n = Inl (Exited (TooShort (strlen line)) EXIT_FAILURE)
              \<and> EXIT_FAILURE \<noteq> 0"
proof (cases "MIN_LINE_LEN < strlen line")
  case long: True
  show ?thesis
  proof (cases "well_formed strtof line \<and> 0 \<le> n \<and> n < MAX_ATOMS")
    case True
    then show ?thesis
      using assms long by (simp add: main_while_Some parseLine_well_formed)
  next
    case False
    have "\<exists>e. parseLine strtof line n a = Inl e"
    proof (cases "parseLine strtof line n a")
      case (Inl e)
      then show ?thesis by blast
    next
      case (Inr a')
      from parseLine_Inr_well_formed [OF long this] False show ?thesis
        by simp
    qed
    then show ?thesis
      using assms long False by (auto simp: main_while_Some)
  qed
next
  case False
  then show ?thesis
    using assms by (simp add: main_while_Some EXIT_FAILURE_def)
qed

text \<open>A record of 61 characters is stored; the record of 60 characters is refused.\<close>

theorem classified_line_length_witness:
  "main_while strtof_decimal \<lparr>pending = x2_line, fails = False, eof = False\<rparr> []
         (\<lambda>_ _. 0) 0
       = main_while strtof_decimal \<lparr>pending = [], fails = False, eof = False\<rparr>
           (x2_line @ [END_OF_STRING]) ((\<lambda>_ _. 0)(0 := (\<lambda>_. 0)(0 := 2, 1 := 0, 2 := 0))) 1
   \<and> main_while strtof_decimal \<lparr>pending = sixty_line, fails = False, eof = False\<rparr> []
         (\<lambda>_ _. 0) 0
       = Inl (Exited (TooShort 60) EXIT_FAILURE)"
proof -
  let ?line = "x2_line @ [END_OF_STRING]"
  have f: "fgets [] MAX_LINE \<lparr>pending = x2_line, fails = False, eof = False\<rparr>
        = (Some ?line, \<lparr>pending = [], fails = False, eof = False\<rparr>)"
    by (subst fgets_final_line) (simp_all add: x2_line_def MAX_LINE_def)
  have cs: "c_str ?line = c_str x2_line"
    by (simp add: c_str_append_NUL [of _ "[]"])
  have s: "startsWith ?line" and l: "MIN_LINE_LEN < strlen ?line"
    using x2_line_facts(1,2) by (simp_all add: startsWith_iff strlen_def cs)
  have wf: "well_formed strtof_decimal ?line"
    using l by (simp add: well_formed_def cs x2_line_facts converts_def getFloat_decimal_examples)
  have co: "coordinate strtof_decimal ?line 0 = 2" "coordinate strtof_decimal ?line 1 = 0"
    "coordinate strtof_decimal ?line 2 = 0"
    using getFloat_Inr [OF getFloat_decimal_examples(1)] getFloat_Inr [OF getFloat_decimal_examples(2)]
    by (simp_all add: coordinate_def cs x2_line_facts)
  have 1: "main_while strtof_decimal \<lparr>pending = x2_line, fails = False, eof = False\<rparr> []
         (\<lambda>_ _. 0) 0
       = main_while strtof_decimal \<lparr>pending = [], fails = False, eof = False\<rparr>
           ?line ((\<lambda>_ _. 0)(0 := (\<lambda>_. 0)(0 := 2, 1 := 0, 2 := 0))) 1"
    using classified_line_length [OF f s, where strtof = strtof_decimal and n = 0 and a = "\<lambda>_ _. 0"] l wf
    by (simp add: co MAX_ATOMS_def)
  let ?short = "sixty_line @ [END_OF_STRING]"
  have g: "fgets [] MAX_LINE \<lparr>pending = sixty_line, fails = False, eof = False\<rparr>
        = (Some ?short, \<lparr>pending = [], fails = False, eof = True\<rparr>)"
    by (subst fgets_last_line) (simp_all add: sixty_line_facts MAX_LINE_def)
  have cs2: "c_str ?short = c_str sixty_line"
    by (simp add: c_str_append_NUL [of _ "[]"])
  have s2: "startsWith ?short" and l2: "strlen ?short = 60"
    using sixty_line_facts(2,3) by (simp_all add: startsWith_iff strlen_def cs2)
  have 2: "main_while strtof_decimal \<lparr>pending = sixty_line, fails = False, eof = False\<rparr> []
         (\<lambda>_ _. 0) 0
       = Inl (Exited (TooShort 60) EXIT_FAILURE)"
    using classified_line_length [OF g s2, where strtof = strtof_decimal and n = 0 and a = "\<lambda>_ _. 0"]
    by (simp add: l2 MIN_LINE_LEN_def)
  from 1 2 show ?thesis ..
qed

subsection \<open>Fields that do not convert\<close>

text \<open>
  Claim C5 as stated fails. The field holds a number and \<open>strtof\<close> consumes it, so by
  the claim its value is returned; the value is 0 and \<open>errno\<close> is set, and \<open>getFloat\<close>
  ends the program with the conversion error.
\<close>

theorem getFloat_range_error_counterexample:
  "fst (snd (strtof_range_error ''   1e-99'')) = 8
   \<and> getFloat strtof_range_error ''   1e-99''
       = Inl (Exited (ConversionErr ''   1e-99'') EXIT_FAILURE)"
  by (simp add: strtof_range_error_def getFloat_def c_str_def END_OF_STRING_def)

text \<open>
  Claim C5, amended. \<open>getFloat\<close> hands the field to \<open>strtof\<close> as it is. It ends the
  program with the conversion error and the non-zero status \<open>EXIT_FAILURE\<close> exactly
  when \<open>strtof\<close> returns zero and either has consumed nothing or has set \<open>errno\<close>;
  otherwise it returns the value. When the first atom record of a file that is not
  well formed is long enough, so that one of its fields fails in this way, \<open>main\<close>
  prints that conversion error and nothing else for the file.
\<close>

theorem getFloat_conversion_failure:
  "getFloat strtof input =
     (case strtof (c_str input) of
        (result, consumed, errno) \<Rightarrow>
          if result = 0 \<and> (consumed = 0 \<or> errno \<noteq> 0)
          then Inl (Exited (ConversionErr (c_str input)) EXIT_FAILURE)
          else Inr result)
   \<and> EXIT_FAILURE \<noteq> 0
   \<and> (fs arg = Some (bytes, bad) \<and> file_lines bytes bad = pre @ line # post
        \<and> (\<forall>l \<in> set (atom_records pre). well_formed strtof l)
        \<and> int (length (atom_records pre)) < MAX_ATOMS
        \<and> startsWith line \<and> MIN_LINE_LEN < strlen line \<and> \<not> well_formed strtof line
      \<longrightarrow> (\<exists>k \<in> {0, 1, 2}.
             main_for strtof fs (arg # args) vars
               = ([ConversionErr (coordinate_field (c_str line) k)], Exit EXIT_FAILURE)
             \<and> getFloat strtof (coordinate_field (c_str line) k)
                 = Inl (Exited (ConversionErr (coordinate_field (c_str line) k)) EXIT_FAILURE)))"
proof (intro conjI impI)
  show "getFloat strtof input =
     (case strtof (c_str input) of
        (result, consumed, errno) \<Rightarrow>
          if result = 0 \<and> (consumed = 0 \<or> errno \<noteq> 0)
          then Inl (Exited (ConversionErr (c_str input)) EXIT_FAILURE)
          else Inr result)"
    by (auto simp: getFloat_def split: prod.splits)
  show "EXIT_FAILURE \<noteq> 0"
    by (simp add: EXIT_FAILURE_def)
  assume h: "fs arg = Some (bytes, bad) \<and> file_lines bytes bad = pre @ line # post
        \<and> (\<forall>l \<in> set (atom_records pre). well_formed strtof l)
        \<and> int (length (atom_records pre)) < MAX_ATOMS
        \<and> startsWith line \<and> MIN_LINE_LEN < strlen line \<and> \<not> well_formed strtof line"
  then obtain k where k: "k \<in> {0, 1, 2}"
    "main_for strtof fs (arg # args) vars
       = ([ConversionErr (coordinate_field (c_str line) k)], Exit EXIT_FAILURE)"
    "\<not> converts strtof (coordinate_field (c_str line) k)"
    using main_for_conversion_error [of fs arg bytes bad pre line post strtof args vars]
    by blast
  from k(3) have "getFloat strtof (coordinate_field (c_str line) k)
                 = Inl (Exited (ConversionErr (coordinate_field (c_str line) k)) EXIT_FAILURE)"
    using getFloat_Inl [of strtof "coordinate_field (c_str line) k"]
    by (cases "getFloat strtof (coordinate_field (c_str line) k)")
       (simp_all add: converts_def c_str_coordinate_field)
  with k(1,2) show "\<exists>k \<in> {0, 1, 2}.
             main_for strtof fs (arg # args) vars
               = ([ConversionErr (coordinate_field (c_str line) k)], Exit EXIT_FAILURE)
             \<and> getFloat strtof (coordinate_field (c_str line) k)
                 = Inl (Exited (ConversionErr (coordinate_field (c_str line) k)) EXIT_FAILURE)"
    by blast
qed

text \<open>A file whose second atom record has \<open>n/a\<close> for its second coordinate.\<close>

theorem getFloat_conversion_failure_witness:
  "main_for strtof_decimal bad_y_fs [''bad.pdb''] fresh_vars
     = ([ConversionErr ''   n/a  ''], Exit EXIT_FAILURE)"
proof -
  have 1: "bad_y_fs ''bad.pdb'' = Some (origin_line @ bad_y_line, False)"
    by (simp add: bad_y_fs_def)
  have 2: "\<forall>l \<in> set (atom_records [origin_line]). well_formed strtof_decimal l"
    by (simp add: atom_records_def well_formed_def origin_line_facts converts_def
        getFloat_decimal_examples)
  have 3: "int (length (atom_records [origin_line])) < MAX_ATOMS"
    by (simp add: atom_records_def MAX_ATOMS_def)
  have 4: "\<not> well_formed strtof_decimal bad_y_line"
    by (simp add: well_formed_def bad_y_line_facts converts_def getFloat_decimal_more)
  from getFloat_conversion_failure [of strtof_decimal "[]" bad_y_fs "''bad.pdb''"
      "origin_line @ bad_y_line" False "[origin_line]" bad_y_line "[]" "[]" fresh_vars]
    1 file_lines_bad_y 2 3 bad_y_line_facts(1,2) 4
  obtain k where k: "k \<in> {0, 1, 2}"
    "main_for strtof_decimal bad_y_fs [''bad.pdb''] fresh_vars
       = ([ConversionErr (coordinate_field (c_str bad_y_line) k)], Exit EXIT_FAILURE)"
    "getFloat strtof_decimal (coordinate_field (c_str bad_y_line) k)
       = Inl (Exited (ConversionErr (coordinate_field (c_str bad_y_line) k)) EXIT_FAILURE)"
    by blast
  from k(1,3) have "k = 1"
    by (auto simp: bad_y_line_facts getFloat_decimal_more getFloat_decimal_examples)
  with k(2) show ?thesis
    by (simp add: bad_y_line_facts)
qed

subsection \<open>The line classifier\<close>



subsection \<open>The record parser\<close>

text \<open>
  Claim C7. For a line that \<open>fgets\<close> has delivered, that \<open>startsWith\<close> accepts and that
  is longer than \<open>MIN_LINE_LEN\<close>, with the count \<open>n\<close> inside the store: \<open>parseLine\<close>
  converts the three substrings of 8 bytes at offsets 30, 38 and 46 of the line, in
  this order, and stores the three values as columns 0, 1 and 2 of row \<open>n\<close>, changing
  nothing else (a field that does not convert ends the program); the loop calls it
  with the current count and goes on with the count plus one.
\<close>

theorem parseLine_stores_fields:
  assumes "fgets buf MAX_LINE fp = (Some line, fp')" and "startsWith line"
    and "MIN_LINE_LEN < strlen line" and "0 \<le> n" and "n < MAX_ATOMS"
  shows "parseLine strtof line n a =
           (case getFloat strtof (take 8 (drop 30 (c_str line))) of
              Inl e \<Rightarrow> Inl e
            | Inr x \<Rightarrow>
                (case getFloat strtof (take 8 (drop 38 (c_str line))) of
                   Inl e \<Rightarrow> Inl e
                 | Inr y \<Rightarrow>
                     (case getFloat strtof (take 8 (drop 46 (c_str line))) of
                        Inl e \<Rightarrow> Inl e
                      | Inr z \<Rightarrow> Inr (a(n := (a n)(0 := x, 1 := y, 2 := z))))))
         \<and> main_while strtof fp buf a n =
             (case parseLine strtof line n a of
                Inl e \<Rightarrow> Inl e
              | Inr a' \<Rightarrow> main_while strtof fp' line a' (n + 1))"
proof
  have f: "coordinate_field (c_str line) 0 = take 8 (drop 30 (c_str line))"
    "coordinate_field (c_str line) 1 = take 8 (drop 38 (c_str line))"
    "coordinate_field (c_str line) 2 = take 8 (drop 46 (c_str line))"
    by (simp_all add: coordinate_field_def COORDINATE_LEN_def)
  show "parseLine strtof line n a =
           (case getFloat strtof (take 8 (drop 30 (c_str line))) of
              Inl e \<Rightarrow> Inl e
            | Inr x \<Rightarrow>
                (case getFloat strtof (take 8 (drop 38 (c_str line))) of
                   Inl e \<Rightarrow> Inl e
                 | Inr y \<Rightarrow>
                     (case getFloat strtof (take 8 (drop 46 (c_str line))) of
                        Inl e \<Rightarrow> Inl e
                      | Inr z \<Rightarrow> Inr (a(n := (a n)(0 := x, 1 := y, 2 := z))))))"
    unfolding parseLine_fields [OF assms(3)] f using assms(4,5)
    by (simp cong: sum.case_cong)
  show "main_while strtof fp buf a n =
             (case parseLine strtof line n a of
                Inl e \<Rightarrow> Inl e
              | Inr a' \<Rightarrow> main_while strtof fp' line a' (n + 1))"
    using assms by (simp add: main_while_Some)
qed

text \<open>The record of the atom at \<open>(2, 0, 0)\<close>, read as the first line of a file.\<close>

theorem parseLine_stores_fields_witness:
  "parseLine strtof_decimal (x2_line @ [END_OF_STRING]) 0 (\<lambda>_ _. 0)
     = Inr ((\<lambda>_ _. 0)(0 := (\<lambda>_. 0)(0 := 2, 1 := 0, 2 := 0)))
   \<and> main_while strtof_decimal \<lparr>pending = x2_line, fails = False, eof = False\<rparr> []
         (\<lambda>_ _. 0) 0
       = main_while strtof_decimal \<lparr>pending = [], fails = False, eof = False\<rparr>
           (x2_line @ [END_OF_STRING]) ((\<lambda>_ _. 0)(0 := (\<lambda>_. 0)(0 := 2, 1 := 0, 2 := 0))) 1"
proof -
  let ?line = "x2_line @ [END_OF_STRING]"
  have f: "fgets [] MAX_LINE \<lparr>pending = x2_line, fails = False, eof = False\<rparr>
        = (Some ?line, \<lparr>pending = [], fails = False, eof = False\<rparr>)"
    by (subst fgets_final_line) (simp_all add: x2_line_def MAX_LINE_def)
  have cs: "c_str ?line = x2_line"
    by (simp add: c_str_def x2_line_def END_OF_STRING_def)
  have cs': "c_str ?line = c_str x2_line"
    by (simp add: c_str_append_NUL [of _ "[]"])
  have s: "startsWith ?line" and l: "MIN_LINE_LEN < strlen ?line"
    using x2_line_facts(1,2) by (simp_all add: startsWith_iff strlen_def cs')
  have b: "(0::int) \<le> 0" "0 < MAX_ATOMS"
    by (simp_all add: MAX_ATOMS_def)
  have fields: "take 8 (drop 30 x2_line) = ''   2.000''" "take 8 (drop 38 x2_line) = ''   0.000''"
    "take 8 (drop 46 x2_line) = ''   0.000''"
    by (simp_all add: x2_line_def)
  from parseLine_stores_fields [OF f s l b, of strtof_decimal "\<lambda>_ _. 0"]
  show ?thesis
    by (simp add: cs fields getFloat_decimal_examples)
qed

subsection \<open>The order of the atoms\<close>



subsection \<open>Several files\<close>

text \<open>
  Claim C9. Take two runs that have each worked through some files without a fatal
  error, and let both go on with the same further files. From there on both print the
  same, and end the same: what a fresh run on the further files alone prints. The
  buffer, the store and \<open>gravityCenter\<close> are reused and never cleared, but what earlier
  files left in them is not observable.
\<close>

theorem store_does_not_persist:
  assumes "main strtof fs1 gc1 (prog # prior1) = (out1, Exit 0)"
    and "main strtof fs2 gc2 (prog # prior2) = (out2, Exit 0)"
    and "\<forall>name \<in> set later. fs1 name = fs2 name" and "later \<noteq> []"
  shows "main strtof fs1 gc1 (prog # prior1 @ later)
           = (out1 @ fst (main strtof fs1 gc (prog # later)), snd (main strtof fs1 gc (prog # later)))
         \<and> main strtof fs2 gc2 (prog # prior2 @ later)
           = (out2 @ fst (main strtof fs1 gc (prog # later)), snd (main strtof fs1 gc (prog # later)))"
proof -
  let ?v = "\<lambda>g. \<lparr>fileLine = replicate MAX_LINE END_OF_STRING, fileAtoms = (\<lambda>_ _. 0),
                  gravityCenter = g\<rparr>"
  have len: "\<not> length (prog # later) < MIN_ARGS" "\<not> length (prog # prior1 @ later) < MIN_ARGS"
    "\<not> length (prog # prior2 @ later) < MIN_ARGS"
    using assms(4) by (cases later; simp add: MIN_ARGS_def)+
  have fresh: "main strtof fs1 gc (prog # later) = main_for strtof fs1 later (?v gc)"
    using len by (simp add: main_def)
  have p1: "main_for strtof fs1 prior1 (?v gc1) = (out1, Exit 0)"
    using assms(1) by (simp add: main_def split: if_splits)
  have p2: "main_for strtof fs2 prior2 (?v gc2) = (out2, Exit 0)"
    using assms(2) by (simp add: main_def split: if_splits)
  have same: "main_for strtof fs2 later (?v gc) = main_for strtof fs1 later (?v gc)"
    using assms(3) by (intro main_for_fs_cong) simp
  have "main strtof fs1 gc1 (prog # prior1 @ later) = main_for strtof fs1 (prior1 @ later) (?v gc1)"
    using len by (simp add: main_def)
  also have "\<dots> = (out1 @ fst (main_for strtof fs1 later (?v gc)),
                     snd (main_for strtof fs1 later (?v gc)))"
    using p1 by (rule main_for_append)
  finally have 1: "main strtof fs1 gc1 (prog # prior1 @ later)
           = (out1 @ fst (main strtof fs1 gc (prog # later)), snd (main strtof fs1 gc (prog # later)))"
    by (simp add: fresh)
  have "main strtof fs2 gc2 (prog # prior2 @ later) = main_for strtof fs2 (prior2 @ later) (?v gc2)"
    using len by (simp add: main_def)
  also have "\<dots> = (out2 @ fst (main_for strtof fs2 later (?v gc)),
                     snd (main_for strtof fs2 later (?v gc)))"
    using p2 by (rule main_for_append)
  finally have 2: "main strtof fs2 gc2 (prog # prior2 @ later)
           = (out2 @ fst (main strtof fs1 gc (prog # later)), snd (main strtof fs1 gc (prog # later)))"
    by (simp add: fresh same)
  from 1 2 show ?thesis ..
qed

text \<open>
  The file of two atoms, read after itself and read after the file of one atom: its
  report is the same both times.
\<close>

theorem store_does_not_persist_witness:
  "main strtof_decimal two_atoms_fs (\<lambda>_. 0) [''AnalyzeProtein'', ''two.pdb'', ''two.pdb'']
     = ([AtomsRead ''two.pdb'' 2, Cg 1 0 0, Rg 1, Dmax 2,
         AtomsRead ''two.pdb'' 2, Cg 1 0 0, Rg 1, Dmax 2], Exit 0)
   \<and> main strtof_decimal two_atoms_fs (\<lambda>_. 7) [''AnalyzeProtein'', ''one.pdb'', ''two.pdb'']
     = ([AtomsRead ''one.pdb'' 1, Cg 2 0 0, Rg 0, Dmax 0,
         AtomsRead ''two.pdb'' 2, Cg 1 0 0, Rg 1, Dmax 2], Exit 0)"
proof -
  have "\<forall>name \<in> set [''two.pdb'']. two_atoms_fs name = two_atoms_fs name"
    by simp
  moreover have "[''two.pdb''] \<noteq> []"
    by simp
  ultimately show ?thesis
    using store_does_not_persist [of strtof_decimal two_atoms_fs "\<lambda>_. 0" "''AnalyzeProtein''"
        "[''two.pdb'']" _ two_atoms_fs "\<lambda>_. 7" "[''one.pdb'']" _ "[''two.pdb'']" "\<lambda>_. 0",
        OF main_two_atoms main_one_atom]
    by (simp add: main_two_atoms)
qed

subsection \<open>The capacity of the store\<close>

text \<open>
  Claim C10. The store has \<open>MAX_ATOMS = 20000\<close> rows and \<open>parseLine\<close> writes row
  \<open>atomCounter\<close> without comparing it with that bound. A file with at most 20000 atom
  records never makes the program write outside the store. A file with more than
  20000 atom records, of which the first 20000 are well formed and the next one gets
  as far as the first store (it is long enough and its first field converts), makes
  \<open>parseLine\<close> write row 20000, past the end of the store: no error is reported, and
  what the program does from there is undefined.
\<close>

theorem store_overrun:
  "MAX_ATOMS = 20000
   \<and> (fs arg = Some (bytes, bad)
        \<and> int (length (atom_records (file_lines bytes bad))) \<le> MAX_ATOMS
      \<longrightarrow> snd (main_for strtof fs [arg] vars) \<noteq> Undefined)
   \<and> (fs arg = Some (bytes, bad)
        \<and> MAX_ATOMS < int (length (atom_records (file_lines bytes bad)))
        \<and> (\<forall>l \<in> set (take (nat MAX_ATOMS) (atom_records (file_lines bytes bad))).
              well_formed strtof l)
        \<and> MIN_LINE_LEN < strlen (atom_records (file_lines bytes bad) ! nat MAX_ATOMS)
        \<and> converts strtof
             (coordinate_field (c_str (atom_records (file_lines bytes bad) ! nat MAX_ATOMS)) 0)
      \<longrightarrow> main_for strtof fs (arg # args) vars = ([], Undefined))"
proof (intro conjI impI)
  show "MAX_ATOMS = 20000"
    by (simp add: MAX_ATOMS_def)
next
  assume h: "fs arg = Some (bytes, bad)
        \<and> int (length (atom_records (file_lines bytes bad))) \<le> MAX_ATOMS"
  let ?w = "while_lines strtof (file_lines bytes bad) (\<lambda>_ _. 0) 0"
  have no: "?w \<noteq> Inl (OutOfBounds k)" for k
    using while_lines_OutOfBounds [of strtof "file_lines bytes bad" "\<lambda>_ _. 0" 0 k] h
    by (auto simp: MAX_ATOMS_def)
  have eq: "main_for strtof fs [arg] vars =
     (case ?w of
        Inl (Exited msg status) \<Rightarrow> ([msg], Exit status)
      | Inl (OutOfBounds k) \<Rightarrow> ([], Undefined)
      | Inr (a, n) \<Rightarrow>
          if bad \<or> n = 0 then ([ZeroAtoms arg], Exit 1)
          else ([AtomsRead arg n, Cg (centroid n a 0) (centroid n a 1) (centroid n a 2),
                 calRotationRadious n a (centroid n a), calMaxDistance n a]
                @ fst (main_for strtof fs [] vars),
                snd (main_for strtof fs [] vars)))"
    using h by (intro main_for_Cons_eval) simp
  show "snd (main_for strtof fs [arg] vars) \<noteq> Undefined"
    unfolding eq using no by (auto split: sum.splits abort.splits)
next
  assume h: "fs arg = Some (bytes, bad)
        \<and> MAX_ATOMS < int (length (atom_records (file_lines bytes bad)))
        \<and> (\<forall>l \<in> set (take (nat MAX_ATOMS) (atom_records (file_lines bytes bad))).
              well_formed strtof l)
        \<and> MIN_LINE_LEN < strlen (atom_records (file_lines bytes bad) ! nat MAX_ATOMS)
        \<and> converts strtof
             (coordinate_field (c_str (atom_records (file_lines bytes bad) ! nat MAX_ATOMS)) 0)"
  then have w: "while_lines strtof (file_lines bytes bad) (\<lambda>_ _. 0) 0 = Inl (OutOfBounds MAX_ATOMS)"
    by (intro while_lines_overrun) simp_all
  have "main_for strtof fs (arg # args) vars =
     (case while_lines strtof (file_lines bytes bad) (\<lambda>_ _. 0) 0 of
        Inl (Exited msg status) \<Rightarrow> ([msg], Exit status)
      | Inl (OutOfBounds k) \<Rightarrow> ([], Undefined)
      | Inr (a, n) \<Rightarrow>
          if bad \<or> n = 0 then ([ZeroAtoms arg], Exit 1)
          else ([AtomsRead arg n, Cg (centroid n a 0) (centroid n a 1) (centroid n a 2),
                 calRotationRadious n a (centroid n a), calMaxDistance n a]
                @ fst (main_for strtof fs args vars),
                snd (main_for strtof fs args vars)))"
    using h by (intro main_for_Cons_eval) simp
  then show "main_for strtof fs (arg # args) vars = ([], Undefined)"
    by (simp add: w del: main_for.simps)
qed

text \<open>The file of two atoms stays inside the store; the file of 20001 atoms does not.\<close>

theorem store_overrun_witness:
  "snd (main_for strtof_decimal two_atoms_fs [''two.pdb''] fresh_vars) \<noteq> Undefined
   \<and> main_for strtof_decimal big_fs [''big.pdb''] fresh_vars = ([], Undefined)"
proof
  have 1: "two_atoms_fs ''two.pdb'' = Some (origin_line @ remark_line @ x2_line, False)"
    by (simp add: two_atoms_fs_def)
  have 2: "int (length (atom_records
             (file_lines (origin_line @ remark_line @ x2_line) False))) \<le> MAX_ATOMS"
    by (simp add: file_lines_two atom_records_def MAX_ATOMS_def)
  from store_overrun [of two_atoms_fs "''two.pdb''" "origin_line @ remark_line @ x2_line"
      False strtof_decimal fresh_vars] 1 2
  show "snd (main_for strtof_decimal two_atoms_fs [''two.pdb''] fresh_vars) \<noteq> Undefined"
    by blast
next
  let ?bytes = "concat (replicate 20001 x2_line)"
  have recs: "atom_records (file_lines ?bytes False) = replicate 20001 x2_line"
    by (simp add: file_lines_big atom_records_def filter_replicate x2_line_facts)
  have m: "nat MAX_ATOMS = 20000"
    by (simp add: MAX_ATOMS_def)
  have 1: "big_fs ''big.pdb'' = Some (?bytes, False)"
    by (simp add: big_fs_def)
  have 2: "MAX_ATOMS < int (length (atom_records (file_lines ?bytes False)))"
    by (simp add: recs MAX_ATOMS_def)
  have 3: "\<forall>l \<in> set (take (nat MAX_ATOMS) (atom_records (file_lines ?bytes False))).
              well_formed strtof_decimal l"
    by (simp add: recs m well_formed_x2_line)
  have nth: "atom_records (file_lines ?bytes False) ! nat MAX_ATOMS = x2_line"
    by (simp add: recs m)
  have 4: "MIN_LINE_LEN < strlen (atom_records (file_lines ?bytes False) ! nat MAX_ATOMS)"
    unfolding nth by (rule x2_line_facts)
  have 5: "converts strtof_decimal
             (coordinate_field (c_str (atom_records (file_lines ?bytes False) ! nat MAX_ATOMS)) 0)"
    unfolding nth by (simp add: x2_line_facts converts_def getFloat_decimal_examples)
  from store_overrun [where fs = big_fs and arg = "''big.pdb''" and bytes = ?bytes
      and bad = False and strtof = strtof_decimal and args = "[]" and vars = fresh_vars]
    1 2 3 4 5
  show "main_for strtof_decimal big_fs [''big.pdb''] fresh_vars = ([], Undefined)"
    by blast
qed

end
